theory Spec2Isabelle
  imports Main "HOL-Library.AList"
begin

section \<open>JavaScript arrays, as far as \<^verbatim>\<open>index.js\<close> uses them\<close>

text \<open>
  The slot pool of \<^verbatim>\<open>src/index.js\<close> lives in two JavaScript arrays,
  \<^verbatim>\<open>extensionSettings.slots\<close> (the key of every slot) and
  \<^verbatim>\<open>extensionSettings.slotsUsage\<close> (the \<^verbatim>\<open>Date\<close> of its last use).
  A JavaScript array is more than a list, and the program depends on the difference:
  \<^item> an index below \<^verbatim>\<open>length\<close> can be a hole (\<^verbatim>\<open>delete a[i]\<close>
    and a growing \<^verbatim>\<open>a.length = n\<close> leave holes), which is not the same as an index
    that holds \<^verbatim>\<open>undefined\<close> (\<^verbatim>\<open>fill(undefined)\<close> stores those):
    \<^verbatim>\<open>findIndex\<close> visits a hole and reads \<^verbatim>\<open>undefined\<close> there,
    \<^verbatim>\<open>forEach\<close> and \<^verbatim>\<open>Object.values\<close> skip it;
  \<^item> an assignment \<^verbatim>\<open>a[i] = v\<close> with a negative \<^verbatim>\<open>i\<close> does not fail: it
    creates an ordinary property named by the number, which \<^verbatim>\<open>length\<close>,
    \<^verbatim>\<open>findIndex\<close>, \<^verbatim>\<open>forEach\<close> and \<^verbatim>\<open>fill\<close> ignore and
    \<^verbatim>\<open>Object.values\<close> lists after the indices, in insertion order.
\<close>

datatype 'a cell = Hole | Undefined | Val 'a

record 'a js_array =
  items :: "'a cell list"
  props :: "(int \<times> 'a) list"

definition empty_array :: "'a js_array" where
  "empty_array = \<lparr>items = [], props = []\<rparr>"

text \<open>The value read at an index: \<^verbatim>\<open>undefined\<close> (\<open>None\<close>) at a hole.\<close>

fun cell_value :: "'a cell \<Rightarrow> 'a option" where
  "cell_value Hole = None"
| "cell_value Undefined = None"
| "cell_value (Val v) = Some v"

definition js_length :: "'a js_array \<Rightarrow> nat" where
  "js_length a = length (items a)"

text \<open>\<^verbatim>\<open>a[0], ..., a[a.length - 1]\<close> as read by the program.\<close>

definition js_elements :: "'a js_array \<Rightarrow> 'a option list" where
  "js_elements a = map cell_value (items a)"

text \<open>\<^verbatim>\<open>a[i]\<close> for an integer \<open>i\<close>.\<close>

definition js_get :: "'a js_array \<Rightarrow> int \<Rightarrow> 'a option" where
  "js_get a i =
     (if i < 0 then map_of (props a) i
      else if nat i < length (items a) then cell_value (items a ! nat i)
      else None)"

text \<open>
  \<^verbatim>\<open>a[i] = v\<close>: a negative \<open>i\<close> names a property, an index below the length is
  overwritten, an index from the length on extends the array with holes.
\<close>

definition js_set :: "int \<Rightarrow> 'a \<Rightarrow> 'a js_array \<Rightarrow> 'a js_array" where
  "js_set i v a =
     (if i < 0 then a\<lparr>props := AList.update i v (props a)\<rparr>
      else if nat i < length (items a) then a\<lparr>items := (items a)[nat i := Val v]\<rparr>
      else a\<lparr>items := items a @ replicate (nat i - length (items a)) Hole @ [Val v]\<rparr>)"

text \<open>
  \<^verbatim>\<open>delete a[i]\<close>: removes the property or leaves a hole; deleting what is not there
  does nothing and is no error. The length never changes.
\<close>

definition js_delete :: "int \<Rightarrow> 'a js_array \<Rightarrow> 'a js_array" where
  "js_delete i a =
     (if i < 0 then a\<lparr>props := AList.delete i (props a)\<rparr>
      else if nat i < length (items a) then a\<lparr>items := (items a)[nat i := Hole]\<rparr>
      else a)"

text \<open>
  The errors the program can raise: a \<^verbatim>\<open>TypeError\<close> for a method call or an
  assignment on an array that does not exist, and a \<^verbatim>\<open>RangeError\<close> for the
  assignment of an invalid array length.
\<close>

datatype js_error = TypeError | RangeError

text \<open>
  \<^verbatim>\<open>a.length = n\<close> for an integer \<open>n\<close>. The setter throws a
  \<^verbatim>\<open>RangeError\<close> ("Invalid array length") unless \<open>0 \<le> n < 4294967296\<close> (that is \<open>2^32\<close>), and changes
  nothing then. Otherwise it cuts the indices from \<open>n\<close> on, or appends holes up to
  \<open>n\<close> (\<open>js_resized\<close>). (A number that is no integer is refused as well; the model
  takes integers.)
\<close>

definition js_resized :: "nat \<Rightarrow> 'a js_array \<Rightarrow> 'a js_array" where
  "js_resized n a =
     a\<lparr>items := take n (items a) @ replicate (n - length (items a)) Hole\<rparr>"

definition js_set_length :: "int \<Rightarrow> 'a js_array \<Rightarrow> js_error + 'a js_array" where
  "js_set_length n a =
     (if n < 0 \<or> 4294967295 < n then Inl RangeError else Inr (js_resized (nat n) a))"

text \<open>\<^verbatim>\<open>a.fill(undefined)\<close>: every index below the length holds \<^verbatim>\<open>undefined\<close>.\<close>

definition js_fill_undefined :: "'a js_array \<Rightarrow> 'a js_array" where
  "js_fill_undefined a = a\<lparr>items := map (\<lambda>_. Undefined) (items a)\<rparr>"

text \<open>
  \<^verbatim>\<open>a.findIndex(p)\<close>: the first index whose value satisfies \<open>p\<close>, or \<open>-1\<close>.
  Holes are visited and read as \<^verbatim>\<open>undefined\<close>.
\<close>

fun find_from :: "('a option \<Rightarrow> bool) \<Rightarrow> 'a cell list \<Rightarrow> nat \<Rightarrow> int" where
  "find_from p [] k = - 1"
| "find_from p (c # cs) k = (if p (cell_value c) then int k else find_from p cs (Suc k))"

definition findIndex :: "('a option \<Rightarrow> bool) \<Rightarrow> 'a js_array \<Rightarrow> int" where
  "findIndex p a = find_from p (items a) 0"

text \<open>
  \<^verbatim>\<open>a.forEach(f)\<close>, threading the variables the callback assigns: \<open>f\<close> is called
  with the value and the index of every index that is not a hole, in ascending order.
\<close>

fun forEach :: "('a option \<Rightarrow> nat \<Rightarrow> 's \<Rightarrow> 's) \<Rightarrow> 'a cell list \<Rightarrow> nat \<Rightarrow> 's \<Rightarrow> 's" where
  "forEach f [] k st = st"
| "forEach f (Hole # cs) k st = forEach f cs (Suc k) st"
| "forEach f (c # cs) k st = forEach f cs (Suc k) (f (cell_value c) k st)"

text \<open>
  \<^verbatim>\<open>Object.values(a)\<close>: the values at the indices that are not holes, ascending,
  then the values of the other properties in insertion order.
\<close>

definition object_values :: "'a js_array \<Rightarrow> 'a option list" where
  "object_values a =
     map cell_value (filter (\<lambda>c. c \<noteq> Hole) (items a)) @ map (\<lambda>(k, v). Some v) (props a)"

section \<open>The settings object and the slot pool's operations\<close>

text \<open>
  \<^verbatim>\<open>extensionSettings\<close> starts as the empty object: neither array exists until
  \<^verbatim>\<open>initializeSlots\<close> has run, and a method call on the missing array throws a
  \<^verbatim>\<open>TypeError\<close>. An operation returns its outcome (the thrown error or the returned
  value) together with the settings it leaves behind, since a throw does not undo the
  assignments made before it. Keys are strings; a time is a \<^verbatim>\<open>Date\<close>, compared
  through its number of milliseconds, an \<open>int\<close>. \<^verbatim>\<open>new Date()\<close> reads the clock, so
  the time is an argument of \<open>acquireSlot\<close>; nothing is assumed about the clock.
  \<^verbatim>\<open>totalSlots\<close> and \<^verbatim>\<open>index\<close> range over the integers. The calls that save
  the settings and redraw the page change no array and are left out.
\<close>

record settings =
  slots :: "string js_array option"
  slotsUsage :: "int js_array option"

type_synonym 'a outcome = "(js_error + 'a) \<times> settings"

definition fresh :: settings where
  "fresh = \<lparr>slots = None, slotsUsage = None\<rparr>"

abbreviation pool :: "string js_array \<Rightarrow> int js_array \<Rightarrow> settings" where
  "pool a u \<equiv> \<lparr>slots = Some a, slotsUsage = Some u\<rparr>"

text \<open>
  \<^verbatim>\<open>updateSlotsAvailability\<close> (lines 39-61): the two numbers it displays, the used
  slots and the "available" slots. \<^verbatim>\<open>typeof name === "string"\<close> holds of exactly the
  values that are keys.
\<close>

definition count_used :: "string option list \<Rightarrow> nat" where
  "count_used names = fold (\<lambda>name usedSlots. if name \<noteq> None then usedSlots + 1 else usedSlots) names 0"

definition updateSlotsAvailability :: "settings \<Rightarrow> js_error + (nat \<times> nat)" where
  "updateSlotsAvailability s =
     (case slots s of
        None \<Rightarrow> Inl TypeError
      | Some a \<Rightarrow> Inr (count_used (object_values a), js_length a))"

text \<open>
  \<^verbatim>\<open>initializeSlots\<close> (lines 113-133). The two \<^verbatim>\<open>||= []\<close> create the arrays
  that do not exist; then the two lengths are assigned in turn, and the first assignment
  that throws ends the call, with the arrays as they are by then.
\<close>

definition initializeSlots :: "int \<Rightarrow> settings \<Rightarrow> unit outcome" where
  "initializeSlots totalSlots s =
     (let a = (case slots s of None \<Rightarrow> empty_array | Some a \<Rightarrow> a);
          u = (case slotsUsage s of None \<Rightarrow> empty_array | Some u \<Rightarrow> u);
          s1 = \<lparr>slots = Some a, slotsUsage = Some u\<rparr>
      in case js_set_length totalSlots a of
           Inl e \<Rightarrow> (Inl e, s1)
         | Inr a' \<Rightarrow>
             (let s2 = s1\<lparr>slots := Some a'\<rparr> in
              case js_set_length totalSlots u of
                Inl e \<Rightarrow> (Inl e, s2)
              | Inr u' \<Rightarrow> (Inr (), s2\<lparr>slotsUsage := Some u'\<rparr>)))"

text \<open>
  \<^verbatim>\<open>allocateSlot\<close> (lines 147-168), the inner function of \<^verbatim>\<open>acquireSlot\<close>; the
  key and the time of the enclosing call are arguments here.
\<close>

definition allocateSlot :: "string \<Rightarrow> int \<Rightarrow> int \<Rightarrow> settings \<Rightarrow> int outcome" where
  "allocateSlot cacheKey now index s =
     (case slots s of
        None \<Rightarrow> (Inl TypeError, s)
      | Some a \<Rightarrow>
          (let s1 = s\<lparr>slots := Some (js_set index cacheKey a)\<rparr> in
           case slotsUsage s1 of
             None \<Rightarrow> (Inl TypeError, s1)
           | Some u \<Rightarrow> (Inr index, s1\<lparr>slotsUsage := Some (js_set index now u)\<rparr>)))"

text \<open>
  \<^verbatim>\<open>findLeastRecentSlotIndex\<close> (lines 174-190). \<^verbatim>\<open>leastRecentDate\<close> is
  \<^verbatim>\<open>Infinity\<close> or a date; \<^verbatim>\<open>date < leastRecentDate\<close> compares numbers, and is
  false when \<^verbatim>\<open>date\<close> is \<^verbatim>\<open>undefined\<close> (it converts to \<^verbatim>\<open>NaN\<close>). A date
  made by \<^verbatim>\<open>new Date()\<close> is a finite number, below \<^verbatim>\<open>Infinity\<close>. The callback
  assigns only when the comparison holds, and then \<^verbatim>\<open>date\<close> is a date.
\<close>

datatype bound = Infinity | Date int

fun before :: "int option \<Rightarrow> bound \<Rightarrow> bool" where
  "before None b = False"
| "before (Some d) Infinity = True"
| "before (Some d) (Date e) = (d < e)"

definition lru_callback :: "int option \<Rightarrow> nat \<Rightarrow> bound \<times> int \<Rightarrow> bound \<times> int" where
  "lru_callback date index st =
     (case st of (leastRecentDate, leastRecentIndex) \<Rightarrow>
        if before date leastRecentDate
        then (case date of Some d \<Rightarrow> (Date d, int index) | None \<Rightarrow> st)
        else st)"

definition findLeastRecentSlotIndex :: "settings \<Rightarrow> js_error + int" where
  "findLeastRecentSlotIndex s =
     (case slotsUsage s of
        None \<Rightarrow> Inl TypeError
      | Some u \<Rightarrow> Inr (snd (forEach lru_callback (items u) 0 (Infinity, - 1))))"

text \<open>\<^verbatim>\<open>acquireSlot\<close> (lines 141-209).\<close>

definition acquireSlot :: "string \<Rightarrow> int \<Rightarrow> settings \<Rightarrow> int outcome" where
  "acquireSlot cacheKey now s =
     (case slots s of
        None \<Rightarrow> (Inl TypeError, s)
      | Some a \<Rightarrow>
          (let existingIndex = findIndex (\<lambda>key. key = Some cacheKey) a in
           if existingIndex \<noteq> - 1 then allocateSlot cacheKey now existingIndex s
           else
             (let firstAvailableIndex = findIndex (\<lambda>key. key = None) a in
              if firstAvailableIndex \<noteq> - 1 then allocateSlot cacheKey now firstAvailableIndex s
              else
                (case findLeastRecentSlotIndex s of
                   Inl e \<Rightarrow> (Inl e, s)
                 | Inr leastRecentIndex \<Rightarrow> allocateSlot cacheKey now leastRecentIndex s))))"

text \<open>
  \<^verbatim>\<open>releaseSlot\<close> (lines 216-232), for an integer \<^verbatim>\<open>index\<close>. (A number that is
  no integer names a property that no array of the program has; deleting it does
  nothing.)
\<close>

definition releaseSlot :: "int \<Rightarrow> settings \<Rightarrow> unit outcome" where
  "releaseSlot index s =
     (case slots s of
        None \<Rightarrow> (Inl TypeError, s)
      | Some a \<Rightarrow>
          (let s1 = s\<lparr>slots := Some (js_delete index a)\<rparr> in
           case slotsUsage s1 of
             None \<Rightarrow> (Inl TypeError, s1)
           | Some u \<Rightarrow> (Inr (), s1\<lparr>slotsUsage := Some (js_delete index u)\<rparr>)))"

text \<open>\<^verbatim>\<open>releaseSlots\<close> (lines 238-254).\<close>

definition releaseSlots :: "settings \<Rightarrow> unit outcome" where
  "releaseSlots s =
     (case slots s of
        None \<Rightarrow> (Inl TypeError, s)
      | Some a \<Rightarrow>
          (let s1 = s\<lparr>slots := Some (js_fill_undefined a)\<rparr> in
           case slotsUsage s1 of
             None \<Rightarrow> (Inl TypeError, s1)
           | Some u \<Rightarrow> (Inr (), s1\<lparr>slotsUsage := Some (js_fill_undefined u)\<rparr>)))"

text \<open>
  The states the program can be in: those that a sequence of calls of the four
  operations, with any arguments, produces from the empty settings object. A call that
  throws leaves the state it had reached. (The empty pool of capacity \<open>0\<close> is the state
  after \<open>initializeSlots 0\<close>. Settings restored from a saved file are not modelled.)
\<close>

inductive reachable :: "settings \<Rightarrow> bool" where
  reachable_fresh: "reachable fresh"
| reachable_initializeSlots: "reachable s \<Longrightarrow> reachable (snd (initializeSlots n s))"
| reachable_acquireSlot: "reachable s \<Longrightarrow> reachable (snd (acquireSlot cacheKey now s))"
| reachable_releaseSlot: "reachable s \<Longrightarrow> reachable (snd (releaseSlot index s))"
| reachable_releaseSlots: "reachable s \<Longrightarrow> reachable (snd (releaseSlots s))"

text \<open>
  What every reachable state satisfies. Either neither array exists yet, or both do, and
  then: they have the same length and an index holds a key exactly when it holds a
  time (\<open>aligned\<close>), and no key stands at two indices (\<open>distinct_keys\<close>).
\<close>

definition aligned :: "string js_array \<Rightarrow> int js_array \<Rightarrow> bool" where
  "aligned a u =
     (length (items a) = length (items u) \<and>
      (\<forall>i<length (items a). (cell_value (items a ! i) = None) = (cell_value (items u ! i) = None)))"

definition distinct_keys :: "string js_array \<Rightarrow> bool" where
  "distinct_keys a =
     (\<forall>i<length (items a). \<forall>j<length (items a). \<forall>k.
        items a ! i = Val k \<and> items a ! j = Val k \<longrightarrow> i = j)"

definition pool_inv :: "settings \<Rightarrow> bool" where
  "pool_inv s =
     (case slots s of
        None \<Rightarrow> slotsUsage s = None
      | Some a \<Rightarrow> (case slotsUsage s of None \<Rightarrow> False | Some u \<Rightarrow> aligned a u \<and> distinct_keys a))"

text \<open>
  Two arrays that read alike: the same value at every index (so the same length) and
  the same other properties. They can differ only in where a cell that reads
  \<^verbatim>\<open>undefined\<close> is a hole. Two settings objects read alike when their arrays do.
\<close>

definition same_cells :: "'a js_array \<Rightarrow> 'a js_array \<Rightarrow> bool" where
  "same_cells a b = (js_elements a = js_elements b \<and> props a = props b)"

definition same_view :: "settings \<Rightarrow> settings \<Rightarrow> bool" where
  "same_view s t =
     (rel_option same_cells (slots s) (slots t) \<and>
      rel_option same_cells (slotsUsage s) (slotsUsage t))"

section \<open>Lemmas about the array primitives\<close>

subsection \<open>Finding an index\<close>

lemma cell_value_Some: "(cell_value c = Some v) = (c = Val v)"
  by (cases c) auto

lemma nth_Val_value: "(cell_value c \<noteq> None) = (\<exists>v. c = Val v)"
  by (cases c) auto

lemma find_from_none:
  "(find_from p cs k = - 1) = (\<forall>c\<in>set cs. \<not> p (cell_value c))"
proof (induction cs arbitrary: k)
  case Nil
  show ?case by simp
next
  case (Cons c cs)
  show ?case using Cons.IH [of "Suc k"] by auto
qed

lemma find_from_found:
  "find_from p cs k \<noteq> - 1 \<Longrightarrow>
     \<exists>j<length cs. find_from p cs k = int (k + j) \<and> p (cell_value (cs ! j)) \<and>
       (\<forall>j'<j. \<not> p (cell_value (cs ! j')))"
proof (induction cs arbitrary: k)
  case Nil
  then show ?case by simp
next
  case (Cons c cs)
  show ?case
  proof (cases "p (cell_value c)")
    case True
    then show ?thesis by (intro exI [of _ 0]) simp
  next
    case False
    with Cons.prems have "find_from p cs (Suc k) \<noteq> - 1" by simp
    from Cons.IH [OF this] obtain j where j: "j < length cs"
      "find_from p cs (Suc k) = int (Suc k + j)" "p (cell_value (cs ! j))"
      "\<forall>j'<j. \<not> p (cell_value (cs ! j'))" by blast
    show ?thesis
    proof (intro exI [of _ "Suc j"] conjI allI impI)
      show "Suc j < length (c # cs)" using j(1) by simp
      show "find_from p (c # cs) k = int (k + Suc j)" using False j(2) by simp
      show "p (cell_value ((c # cs) ! Suc j))" using j(3) by simp
      fix j' assume "j' < Suc j"
      then show "\<not> p (cell_value ((c # cs) ! j'))"
        using False j(4) by (cases j') auto
    qed
  qed
qed

lemma find_from_eqI:
  "j < length cs \<Longrightarrow> p (cell_value (cs ! j)) \<Longrightarrow> \<forall>j'<j. \<not> p (cell_value (cs ! j')) \<Longrightarrow>
     find_from p cs k = int (k + j)"
proof (induction cs arbitrary: j k)
  case Nil
  then show ?case by simp
next
  case (Cons c cs)
  show ?case
  proof (cases j)
    case 0
    with Cons.prems show ?thesis by simp
  next
    case (Suc j0)
    with Cons.prems have "\<not> p (cell_value c)" by auto
    moreover have "find_from p cs (Suc k) = int (Suc k + j0)"
      using Cons.prems Suc by (intro Cons.IH) auto
    ultimately show ?thesis using Suc by simp
  qed
qed

lemma findIndex_found:
  assumes "findIndex p a \<noteq> - 1"
  obtains j where "findIndex p a = int j" "j < length (items a)" "p (cell_value (items a ! j))"
    "\<forall>j'<j. \<not> p (cell_value (items a ! j'))"
  using find_from_found [of p "items a" 0] assms unfolding findIndex_def by auto

lemma findIndex_none:
  "(findIndex p a = - 1) = (\<forall>j<length (items a). \<not> p (cell_value (items a ! j)))"
  unfolding findIndex_def find_from_none by (auto simp: all_set_conv_all_nth)

lemma findIndex_eqI:
  "j < length (items a) \<Longrightarrow> p (cell_value (items a ! j)) \<Longrightarrow>
     \<forall>j'<j. \<not> p (cell_value (items a ! j')) \<Longrightarrow> findIndex p a = int j"
  unfolding findIndex_def using find_from_eqI [of j "items a" p 0] by simp

lemma key_absent: "(findIndex (\<lambda>x. x = Some key) a = - 1) = (\<forall>j<js_length a. items a ! j \<noteq> Val key)"
  by (simp add: findIndex_none cell_value_Some js_length_def)

lemma no_empty: "(findIndex (\<lambda>x. x = None) a = - 1) = (\<forall>j<js_length a. cell_value (items a ! j) \<noteq> None)"
  by (simp add: findIndex_none js_length_def)

subsection \<open>Reading, writing, deleting, resizing\<close>

lemma js_get_beyond: "int (length (items a)) \<le> i \<Longrightarrow> js_get a i = None"
  by (auto simp: js_get_def)

lemma js_get_js_set: "js_get (js_set i v a) i = Some v"
  by (auto simp: js_get_def js_set_def update_conv' nth_append)

lemma js_set_items:
  "0 \<le> i \<Longrightarrow> nat i < length (items a) \<Longrightarrow> items (js_set i v a) = (items a)[nat i := Val v]"
  by (simp add: js_set_def)

lemma items_js_set_neg: "i < 0 \<Longrightarrow> items (js_set i v a) = items a"
  by (simp add: js_set_def)

lemma js_set_present:
  assumes "findIndex (\<lambda>x. x = Some k) a = int j"
  shows "js_set (int j) k a = a"
proof -
  from assms have "findIndex (\<lambda>x. x = Some k) a \<noteq> - 1" by simp
  then obtain j' where "findIndex (\<lambda>x. x = Some k) a = int j'" "j' < length (items a)"
    "cell_value (items a ! j') = Some k" by (rule findIndex_found)
  with assms have "j < length (items a)" "items a ! j = Val k"
    by (simp_all add: cell_value_Some)
  then have "(items a)[j := Val k] = items a" by (simp add: list_update_same_conv)
  with \<open>j < length (items a)\<close> show ?thesis by (simp add: js_set_def)
qed

lemma findIndex_js_set_absent:
  assumes "0 \<le> i" and "\<forall>j<length (items a). items a ! j \<noteq> Val k"
  shows "findIndex (\<lambda>x. x = Some k) (js_set i k a) = i"
proof -
  have "findIndex (\<lambda>x. x = Some k) (js_set i k a) = int (nat i)"
  proof (rule findIndex_eqI)
    show "nat i < length (items (js_set i k a))"
      using assms(1) by (simp add: js_set_def)
    show "cell_value (items (js_set i k a) ! nat i) = Some k"
      using assms(1) by (simp add: js_set_def nth_append)
    show "\<forall>j'<nat i. cell_value (items (js_set i k a) ! j') \<noteq> Some k"
      using assms by (auto simp: js_set_def nth_append cell_value_Some)
  qed
  with assms(1) show ?thesis by simp
qed

lemma js_resized_items:
  "length (items (js_resized n a)) = n"
  "i < min (length (items a)) n \<Longrightarrow> items (js_resized n a) ! i = items a ! i"
  "length (items a) \<le> i \<Longrightarrow> i < n \<Longrightarrow> items (js_resized n a) ! i = Hole"
  "props (js_resized n a) = props a"
  by (auto simp: js_resized_def nth_append)

lemma js_delete_idem: "js_delete i (js_delete i a) = js_delete i a"
  by (auto simp: js_delete_def delete_idem)

lemma js_delete_empty:
  assumes "i < length (items a)" and "cell_value (items a ! i) = None"
  shows "js_elements (js_delete (int i) a) = js_elements a"
    and "length (items (js_delete (int i) a)) = length (items a)"
    and "props (js_delete (int i) a) = props a"
proof -
  have "(map cell_value (items a))[i := None] = map cell_value (items a)"
    using assms by (simp add: list_update_same_conv)
  then show "js_elements (js_delete (int i) a) = js_elements a"
    using assms(1) by (simp add: js_elements_def js_delete_def map_update)
  show "length (items (js_delete (int i) a)) = length (items a)"
    "props (js_delete (int i) a) = props a"
    using assms(1) by (simp_all add: js_delete_def)
qed

subsection \<open>The scan for the least recent time\<close>

lemma before_trans: "d < e \<Longrightarrow> before (Some e) b \<Longrightarrow> before (Some d) b"
  by (cases b) auto

lemma not_before_le: "\<not> before (Some e) b \<Longrightarrow> before (Some d) b \<Longrightarrow> d < e"
  by (cases b) auto

lemma lru_callback_None: "lru_callback None k st = st"
  by (simp add: lru_callback_def split: prod.splits)

lemma lru_callback_Some:
  "lru_callback (Some d) k (b, r) = (if before (Some d) b then (Date d, int k) else (b, r))"
  by (simp add: lru_callback_def)

lemma lru_shift_keep:
  assumes "((\<forall>j<length cs. \<not> before (cell_value (cs ! j)) b) \<and> b' = b \<and> r' = r) \<or>
     (\<exists>j<length cs. \<exists>d. cs ! j = Val d \<and> b' = Date d \<and> r' = int (Suc k + j) \<and> before (Some d) b \<and>
        (\<forall>i<length cs. \<forall>e. cs ! i = Val e \<longrightarrow> d \<le> e \<and> (i < j \<longrightarrow> d < e)))"
    and "\<not> before (cell_value c) b"
  shows "((\<forall>j<length (c # cs). \<not> before (cell_value ((c # cs) ! j)) b) \<and> b' = b \<and> r' = r) \<or>
     (\<exists>j<length (c # cs). \<exists>d. (c # cs) ! j = Val d \<and> b' = Date d \<and> r' = int (k + j) \<and> before (Some d) b \<and>
        (\<forall>i<length (c # cs). \<forall>e. (c # cs) ! i = Val e \<longrightarrow> d \<le> e \<and> (i < j \<longrightarrow> d < e)))"
  using assms(1)
proof (elim disjE exE conjE)
  assume "\<forall>j<length cs. \<not> before (cell_value (cs ! j)) b" "b' = b" "r' = r"
  with assms(2) show ?thesis by (simp add: All_less_Suc2)
next
  fix j d
  assume j: "j < length cs" "cs ! j = Val d" "b' = Date d" "r' = int (Suc k + j)"
    "before (Some d) b"
    "\<forall>i<length cs. \<forall>e. cs ! i = Val e \<longrightarrow> d \<le> e \<and> (i < j \<longrightarrow> d < e)"
  have "\<forall>e. c = Val e \<longrightarrow> d < e \<and> d \<le> e"
  proof (intro allI impI)
    fix e assume "c = Val e"
    with assms(2) have "\<not> before (Some e) b" by simp
    from this j(5) have "d < e" by (rule not_before_le)
    then show "d < e \<and> d \<le> e" by simp
  qed
  with j have "Suc j < length (c # cs) \<and> (c # cs) ! Suc j = Val d \<and> b' = Date d \<and>
      r' = int (k + Suc j) \<and> before (Some d) b \<and>
      (\<forall>i<length (c # cs). \<forall>e. (c # cs) ! i = Val e \<longrightarrow> d \<le> e \<and> (i < Suc j \<longrightarrow> d < e))"
    by (simp add: All_less_Suc2)
  then show ?thesis by blast
qed

lemma lru_shift_take:
  assumes "((\<forall>j<length cs. \<not> before (cell_value (cs ! j)) (Date d0)) \<and> b' = Date d0 \<and> r' = int k) \<or>
     (\<exists>j<length cs. \<exists>d. cs ! j = Val d \<and> b' = Date d \<and> r' = int (Suc k + j) \<and> before (Some d) (Date d0) \<and>
        (\<forall>i<length cs. \<forall>e. cs ! i = Val e \<longrightarrow> d \<le> e \<and> (i < j \<longrightarrow> d < e)))"
    and "before (Some d0) b"
  shows "\<exists>j<length (Val d0 # cs). \<exists>d. (Val d0 # cs) ! j = Val d \<and> b' = Date d \<and> r' = int (k + j) \<and> before (Some d) b \<and>
        (\<forall>i<length (Val d0 # cs). \<forall>e. (Val d0 # cs) ! i = Val e \<longrightarrow> d \<le> e \<and> (i < j \<longrightarrow> d < e))"
  using assms(1)
proof (elim disjE exE conjE)
  assume a: "\<forall>j<length cs. \<not> before (cell_value (cs ! j)) (Date d0)" "b' = Date d0" "r' = int k"
  have "\<forall>i<length cs. \<forall>e. cs ! i = Val e \<longrightarrow> d0 \<le> e"
  proof (intro allI impI)
    fix i e assume "i < length cs" "cs ! i = Val e"
    with a(1) have "\<not> before (Some e) (Date d0)" by fastforce
    then show "d0 \<le> e" by simp
  qed
  with a assms(2) have "0 < length (Val d0 # cs) \<and> (Val d0 # cs) ! 0 = Val d0 \<and> b' = Date d0 \<and>
      r' = int (k + 0) \<and> before (Some d0) b \<and>
      (\<forall>i<length (Val d0 # cs). \<forall>e. (Val d0 # cs) ! i = Val e \<longrightarrow> d0 \<le> e \<and> (i < 0 \<longrightarrow> d0 < e))"
    by (simp add: All_less_Suc2)
  then show ?thesis by blast
next
  fix j d
  assume j: "j < length cs" "cs ! j = Val d" "b' = Date d" "r' = int (Suc k + j)"
    "before (Some d) (Date d0)"
    "\<forall>i<length cs. \<forall>e. cs ! i = Val e \<longrightarrow> d \<le> e \<and> (i < j \<longrightarrow> d < e)"
  from j(5) have lt: "d < d0" by simp
  from lt assms(2) have "before (Some d) b" by (rule before_trans)
  with j lt have "Suc j < length (Val d0 # cs) \<and> (Val d0 # cs) ! Suc j = Val d \<and> b' = Date d \<and>
      r' = int (k + Suc j) \<and> before (Some d) b \<and>
      (\<forall>i<length (Val d0 # cs). \<forall>e. (Val d0 # cs) ! i = Val e \<longrightarrow> d \<le> e \<and> (i < Suc j \<longrightarrow> d < e))"
    by (simp add: All_less_Suc2)
  then show ?thesis by blast
qed

lemma forEach_lru:
  "forEach lru_callback cs k (b, r) = (b', r') \<Longrightarrow>
     ((\<forall>j<length cs. \<not> before (cell_value (cs ! j)) b) \<and> b' = b \<and> r' = r) \<or>
     (\<exists>j<length cs. \<exists>d. cs ! j = Val d \<and> b' = Date d \<and> r' = int (k + j) \<and> before (Some d) b \<and>
        (\<forall>i<length cs. \<forall>e. cs ! i = Val e \<longrightarrow> d \<le> e \<and> (i < j \<longrightarrow> d < e)))"
proof (induction cs arbitrary: k b r)
  case Nil
  then show ?case by simp
next
  case (Cons c cs)
  show ?case
  proof (cases c)
    case Hole
    with Cons.prems have "forEach lru_callback cs (Suc k) (b, r) = (b', r')" by simp
    from Cons.IH [OF this] show ?thesis
      unfolding Hole by (rule lru_shift_keep) simp
  next
    case Undefined
    with Cons.prems have "forEach lru_callback cs (Suc k) (b, r) = (b', r')"
      by (simp add: lru_callback_None)
    from Cons.IH [OF this] show ?thesis
      unfolding Undefined by (rule lru_shift_keep) simp
  next
    case (Val d0)
    show ?thesis
    proof (cases "before (Some d0) b")
      case True
      with Val Cons.prems have "forEach lru_callback cs (Suc k) (Date d0, int k) = (b', r')"
        by (simp add: lru_callback_Some)
      from Cons.IH [OF this] have "\<exists>j<length (Val d0 # cs). \<exists>d. (Val d0 # cs) ! j = Val d \<and> b' = Date d \<and> r' = int (k + j) \<and> before (Some d) b \<and>
        (\<forall>i<length (Val d0 # cs). \<forall>e. (Val d0 # cs) ! i = Val e \<longrightarrow> d \<le> e \<and> (i < j \<longrightarrow> d < e))"
        using True by (rule lru_shift_take)
      then show ?thesis unfolding Val by blast
    next
      case False
      with Val Cons.prems have "forEach lru_callback cs (Suc k) (b, r) = (b', r')"
        by (simp add: lru_callback_Some)
      moreover have "\<not> before (cell_value (Val d0)) b" using False by simp
      ultimately show ?thesis
        unfolding Val by (intro lru_shift_keep Cons.IH)
    qed
  qed
qed

subsection \<open>Counting the used slots\<close>

lemma fold_count_used:
  "fold (\<lambda>name usedSlots. if name \<noteq> None then usedSlots + 1 else usedSlots) names n =
     n + length (filter (\<lambda>x. x \<noteq> None) names)"
  by (induction names arbitrary: n) (simp_all del: not_None_eq)

lemma count_used_filter: "count_used names = length (filter (\<lambda>x. x \<noteq> None) names)"
  by (simp add: count_used_def fold_count_used del: not_None_eq)

lemma filter_prop_values:
  "filter (\<lambda>x. x \<noteq> None) (map (\<lambda>(k, v). Some v) ps) = map (\<lambda>(k, v). Some v) ps"
  by (induction ps) auto

lemma filter_values_no_holes:
  "filter (\<lambda>x. x \<noteq> None) (map cell_value (filter (\<lambda>c. c \<noteq> Hole) cs)) =
     filter (\<lambda>x. x \<noteq> None) (map cell_value cs)"
proof (induction cs)
  case Nil
  show ?case by simp
next
  case (Cons c cs)
  then show ?case by (cases c) (simp_all del: not_None_eq)
qed

section \<open>The operations on a pool\<close>

lemma findLeastRecentSlotIndex_pool:
  "\<exists>r. findLeastRecentSlotIndex (pool a u) = Inr r \<and>
     ((r = - 1 \<and> (\<forall>j<length (items u). cell_value (items u ! j) = None)) \<or>
      (\<exists>j<length (items u). \<exists>d. r = int j \<and> items u ! j = Val d \<and>
         (\<forall>i<length (items u). \<forall>e. items u ! i = Val e \<longrightarrow> d \<le> e \<and> (i < j \<longrightarrow> d < e))))"
proof -
  obtain b' r' where run: "forEach lru_callback (items u) 0 (Infinity, - 1) = (b', r')"
    by (cases "forEach lru_callback (items u) 0 (Infinity, - 1)") blast
  have r: "findLeastRecentSlotIndex (pool a u) = Inr r'"
    by (simp add: findLeastRecentSlotIndex_def run)
  from forEach_lru [OF run] show ?thesis
  proof (elim disjE conjE exE)
    assume none: "\<forall>j<length (items u). \<not> before (cell_value (items u ! j)) Infinity" and "r' = - 1"
    have "\<forall>j<length (items u). cell_value (items u ! j) = None"
    proof (intro allI impI)
      fix j assume "j < length (items u)"
      with none have "\<not> before (cell_value (items u ! j)) Infinity" by blast
      then show "cell_value (items u ! j) = None"
        by (cases "cell_value (items u ! j)") auto
    qed
    with r \<open>r' = - 1\<close> show ?thesis by blast
  next
    fix j d
    assume "j < length (items u)" "items u ! j = Val d" "r' = int (0 + j)"
      "\<forall>i<length (items u). \<forall>e. items u ! i = Val e \<longrightarrow> d \<le> e \<and> (i < j \<longrightarrow> d < e)"
    with r show ?thesis by auto
  qed
qed

lemma allocateSlot_pool:
  "allocateSlot key now i (pool a u) = (Inr i, pool (js_set i key a) (js_set i now u))"
  by (simp add: allocateSlot_def)

lemma acquireSlot_pool:
  "\<exists>i. acquireSlot key now (pool a u) = (Inr i, pool (js_set i key a) (js_set i now u)) \<and>
     ((findIndex (\<lambda>x. x = Some key) a \<noteq> - 1 \<and> i = findIndex (\<lambda>x. x = Some key) a) \<or>
      (findIndex (\<lambda>x. x = Some key) a = - 1 \<and> findIndex (\<lambda>x. x = None) a \<noteq> - 1 \<and>
         i = findIndex (\<lambda>x. x = None) a) \<or>
      (findIndex (\<lambda>x. x = Some key) a = - 1 \<and> findIndex (\<lambda>x. x = None) a = - 1 \<and>
         findLeastRecentSlotIndex (pool a u) = Inr i))"
proof -
  obtain r where "findLeastRecentSlotIndex (pool a u) = Inr r"
    using findLeastRecentSlotIndex_pool [of a u] by blast
  then show ?thesis
    by (simp add: acquireSlot_def Let_def allocateSlot_pool)
qed

lemma acquireSlot_reuse:
  "findIndex (\<lambda>x. x = Some key) a = int j \<Longrightarrow>
     acquireSlot key now (pool a u) = (Inr (int j), pool (js_set (int j) key a) (js_set (int j) now u))"
  by (simp add: acquireSlot_def Let_def allocateSlot_pool)

lemma acquireSlot_free:
  "findIndex (\<lambda>x. x = Some key) a = - 1 \<Longrightarrow> findIndex (\<lambda>x. x = None) a = int j \<Longrightarrow>
     acquireSlot key now (pool a u) = (Inr (int j), pool (js_set (int j) key a) (js_set (int j) now u))"
  by (simp add: acquireSlot_def Let_def allocateSlot_pool)

lemma acquireSlot_evict:
  "findIndex (\<lambda>x. x = Some key) a = - 1 \<Longrightarrow> findIndex (\<lambda>x. x = None) a = - 1 \<Longrightarrow>
     findLeastRecentSlotIndex (pool a u) = Inr r \<Longrightarrow>
     acquireSlot key now (pool a u) = (Inr r, pool (js_set r key a) (js_set r now u))"
  by (simp add: acquireSlot_def Let_def allocateSlot_pool)

lemma acquireSlot_fresh: "acquireSlot key now fresh = (Inl TypeError, fresh)"
  by (simp add: acquireSlot_def fresh_def)

lemma acquireSlot_success:
  "acquireSlot key now s = (Inr i, s1) \<Longrightarrow> \<exists>a u. s = pool a u"
  by (cases s)
    (auto simp: acquireSlot_def allocateSlot_def findLeastRecentSlotIndex_def Let_def
      split: option.splits if_splits)

lemma initializeSlots_pool:
  "0 \<le> n \<Longrightarrow> n \<le> 4294967295 \<Longrightarrow>
     initializeSlots n (pool a u) = (Inr (), pool (js_resized (nat n) a) (js_resized (nat n) u))"
  by (simp add: initializeSlots_def js_set_length_def Let_def)

lemma initializeSlots_accepted:
  "0 \<le> n \<Longrightarrow> n \<le> 4294967295 \<Longrightarrow>
     initializeSlots n s =
       (Inr (),
        pool (js_resized (nat n) (case slots s of None \<Rightarrow> empty_array | Some a \<Rightarrow> a))
             (js_resized (nat n) (case slotsUsage s of None \<Rightarrow> empty_array | Some u \<Rightarrow> u)))"
  by (simp add: initializeSlots_def js_set_length_def Let_def)

lemma initializeSlots_refused:
  "n < 0 \<or> 4294967295 < n \<Longrightarrow>
     initializeSlots n s =
       (Inl RangeError,
        pool (case slots s of None \<Rightarrow> empty_array | Some a \<Rightarrow> a)
             (case slotsUsage s of None \<Rightarrow> empty_array | Some u \<Rightarrow> u))"
  by (simp add: initializeSlots_def js_set_length_def Let_def)

lemma releaseSlot_pool:
  "releaseSlot i (pool a u) = (Inr (), pool (js_delete i a) (js_delete i u))"
  by (simp add: releaseSlot_def)

lemma releaseSlot_twice: "releaseSlot i (snd (releaseSlot i s)) = releaseSlot i s"
proof (cases "slots s")
  case None
  then show ?thesis by (simp add: releaseSlot_def)
next
  case a: (Some a)
  show ?thesis
  proof (cases "slotsUsage s")
    case None
    with a show ?thesis by (simp add: releaseSlot_def Let_def js_delete_idem)
  next
    case (Some u)
    with a show ?thesis by (simp add: releaseSlot_def Let_def js_delete_idem)
  qed
qed

lemma updateSlotsAvailability_pool:
  "updateSlotsAvailability (pool a u) =
     Inr (length (filter (\<lambda>x. x \<noteq> None) (js_elements a)) + length (props a), js_length a)"
  by (simp add: updateSlotsAvailability_def count_used_filter object_values_def
      filter_values_no_holes filter_prop_values js_elements_def del: not_None_eq)

section \<open>The invariant of the reachable states\<close>

lemma aligned_set_length: "aligned a u \<Longrightarrow> aligned (js_resized n a) (js_resized n u)"
  by (auto simp: aligned_def js_resized_def nth_append)

lemma distinct_set_length: "distinct_keys a \<Longrightarrow> distinct_keys (js_resized n a)"
  unfolding distinct_keys_def js_resized_def
  by (auto simp: nth_append split: if_splits)

lemma aligned_js_set: "aligned a u \<Longrightarrow> aligned (js_set i k a) (js_set i t u)"
  by (auto simp: aligned_def js_set_def nth_append nth_list_update)

lemma distinct_js_set:
  assumes "distinct_keys a"
    and "(\<forall>j<length (items a). items a ! j \<noteq> Val k) \<or>
         (0 \<le> i \<and> nat i < length (items a) \<and> items a ! nat i = Val k)"
  shows "distinct_keys (js_set i k a)"
  using assms unfolding distinct_keys_def js_set_def
  by (auto simp: nth_append nth_list_update split: if_splits)

lemma aligned_js_delete: "aligned a u \<Longrightarrow> aligned (js_delete i a) (js_delete i u)"
  by (auto simp: aligned_def js_delete_def nth_list_update)

lemma distinct_js_delete: "distinct_keys a \<Longrightarrow> distinct_keys (js_delete i a)"
  unfolding distinct_keys_def js_delete_def
  by (auto simp: nth_list_update split: if_splits)

lemma aligned_fill: "aligned a u \<Longrightarrow> aligned (js_fill_undefined a) (js_fill_undefined u)"
  by (auto simp: aligned_def js_fill_undefined_def)

lemma distinct_fill: "distinct_keys (js_fill_undefined a)"
  by (auto simp: distinct_keys_def js_fill_undefined_def)

lemma aligned_empty: "aligned empty_array empty_array"
  by (simp add: aligned_def empty_array_def)

lemma distinct_empty: "distinct_keys empty_array"
  by (simp add: distinct_keys_def empty_array_def)

lemma pool_inv_pool: "pool_inv (pool a u) = (aligned a u \<and> distinct_keys a)"
  by (simp add: pool_inv_def)

lemma pool_inv_cases:
  assumes "pool_inv s"
  obtains "s = fresh" | a u where "s = pool a u" "aligned a u" "distinct_keys a"
  using assms by (cases s) (auto simp: pool_inv_def fresh_def split: option.splits)

lemma pool_inv_initializeSlots:
  assumes "pool_inv s"
  shows "pool_inv (snd (initializeSlots n s))"
proof (cases "n < 0 \<or> 4294967295 < n")
  case True
  from assms show ?thesis
    by (rule pool_inv_cases)
      (simp_all add: initializeSlots_refused [OF True] fresh_def pool_inv_pool
        aligned_empty distinct_empty)
next
  case False
  then have n: "0 \<le> n" "n \<le> 4294967295" by simp_all
  from assms show ?thesis
    by (rule pool_inv_cases)
      (simp_all add: initializeSlots_accepted [OF n] fresh_def pool_inv_pool
        aligned_set_length distinct_set_length aligned_empty distinct_empty)
qed

lemma pool_inv_releaseSlot: "pool_inv s \<Longrightarrow> pool_inv (snd (releaseSlot i s))"
  by (erule pool_inv_cases)
    (simp_all add: releaseSlot_def fresh_def pool_inv_def aligned_js_delete distinct_js_delete)

lemma pool_inv_releaseSlots: "pool_inv s \<Longrightarrow> pool_inv (snd (releaseSlots s))"
  by (erule pool_inv_cases)
    (simp_all add: releaseSlots_def fresh_def pool_inv_def aligned_fill distinct_fill)

lemma pool_inv_acquireSlot:
  assumes "pool_inv s"
  shows "pool_inv (snd (acquireSlot key now s))"
  using assms
proof (cases rule: pool_inv_cases)
  case 1
  then show ?thesis by (simp add: acquireSlot_def fresh_def pool_inv_def)
next
  case (2 a u)
  from acquireSlot_pool [of key now a u] obtain i where
    run: "acquireSlot key now (pool a u) = (Inr i, pool (js_set i key a) (js_set i now u))" and
    sel: "(findIndex (\<lambda>x. x = Some key) a \<noteq> - 1 \<and> i = findIndex (\<lambda>x. x = Some key) a) \<or>
      findIndex (\<lambda>x. x = Some key) a = - 1" by blast
  have "(\<forall>j<length (items a). items a ! j \<noteq> Val key) \<or>
         (0 \<le> i \<and> nat i < length (items a) \<and> items a ! nat i = Val key)"
    using sel
  proof
    assume f: "findIndex (\<lambda>x. x = Some key) a \<noteq> - 1 \<and> i = findIndex (\<lambda>x. x = Some key) a"
    then obtain j where "i = int j" "j < length (items a)" "cell_value (items a ! j) = Some key"
      by (auto elim: findIndex_found)
    then show ?thesis by (simp add: cell_value_Some)
  next
    assume "findIndex (\<lambda>x. x = Some key) a = - 1"
    then show ?thesis by (auto simp: findIndex_none cell_value_Some)
  qed
  with 2 show ?thesis
    by (simp add: run pool_inv_pool aligned_js_set distinct_js_set)
qed

lemma reachable_inv: "reachable s \<Longrightarrow> pool_inv s"
proof (induction rule: reachable.induct)
  case reachable_fresh
  show ?case by (simp add: pool_inv_def fresh_def)
qed (simp_all add: pool_inv_initializeSlots pool_inv_acquireSlot pool_inv_releaseSlot
    pool_inv_releaseSlots)

lemma reachable_pool:
  "reachable (pool a u) \<Longrightarrow> aligned a u \<and> distinct_keys a"
  by (drule reachable_inv) (simp add: pool_inv_pool)

lemma evict_in_range:
  assumes al: "aligned a u" and pos: "0 < js_length a"
    and full: "\<forall>j<js_length a. cell_value (items a ! j) \<noteq> None"
  shows "\<exists>j<js_length a. \<exists>d. findLeastRecentSlotIndex (pool a u) = Inr (int j) \<and>
      items u ! j = Val d \<and>
      (\<forall>i<js_length a. \<exists>e. items u ! i = Val e \<and> d \<le> e \<and> (i < j \<longrightarrow> d < e))"
proof -
  from al have len: "length (items u) = js_length a"
    and same: "\<forall>i<js_length a. (cell_value (items a ! i) = None) = (cell_value (items u ! i) = None)"
    by (simp_all add: aligned_def js_length_def)
  have stamped: "\<exists>e. items u ! i = Val e" if "i < js_length a" for i
    using that full same by (simp add: nth_Val_value [symmetric])
  from findLeastRecentSlotIndex_pool [of a u] obtain r where
    r: "findLeastRecentSlotIndex (pool a u) = Inr r" and
    alt: "(r = - 1 \<and> (\<forall>j<length (items u). cell_value (items u ! j) = None)) \<or>
      (\<exists>j<length (items u). \<exists>d. r = int j \<and> items u ! j = Val d \<and>
         (\<forall>i<length (items u). \<forall>e. items u ! i = Val e \<longrightarrow> d \<le> e \<and> (i < j \<longrightarrow> d < e)))"
    by blast
  from alt show ?thesis
  proof (elim disjE conjE exE)
    assume "\<forall>j<length (items u). cell_value (items u ! j) = None"
    with pos len have "cell_value (items u ! 0) = None" by simp
    with stamped [OF pos] show ?thesis by auto
  next
    fix j d
    assume j: "j < length (items u)" "r = int j" "items u ! j = Val d"
      "\<forall>i<length (items u). \<forall>e. items u ! i = Val e \<longrightarrow> d \<le> e \<and> (i < j \<longrightarrow> d < e)"
    have "\<forall>i<js_length a. \<exists>e. items u ! i = Val e \<and> d \<le> e \<and> (i < j \<longrightarrow> d < e)"
    proof (intro allI impI)
      fix i assume i: "i < js_length a"
      then obtain e where "items u ! i = Val e" using stamped by blast
      with j(4) i len show "\<exists>e. items u ! i = Val e \<and> d \<le> e \<and> (i < j \<longrightarrow> d < e)" by simp
    qed
    with j(1-3) r len show ?thesis by auto
  qed
qed

section \<open>States that read alike\<close>

lemma same_cells_length: "same_cells a b \<Longrightarrow> length (items a) = length (items b)"
  by (auto simp: same_cells_def js_elements_def dest: map_eq_imp_length_eq)

lemma js_elements_set_length:
  "js_elements (js_resized n a) =
     take n (js_elements a) @ replicate (n - length (js_elements a)) None"
  by (simp add: js_elements_def js_resized_def take_map)

lemma js_elements_js_set:
  "js_elements (js_set i v a) =
     (if i < 0 then js_elements a
      else if nat i < length (js_elements a) then (js_elements a)[nat i := Some v]
      else js_elements a @ replicate (nat i - length (js_elements a)) None @ [Some v])"
  by (simp add: js_elements_def js_set_def map_update)

lemma js_elements_js_delete:
  "js_elements (js_delete i a) =
     (if 0 \<le> i \<and> nat i < length (js_elements a) then (js_elements a)[nat i := None]
      else js_elements a)"
  by (simp add: js_elements_def js_delete_def map_update)

lemma js_elements_fill:
  "js_elements (js_fill_undefined a) = replicate (length (js_elements a)) None"
  by (simp add: js_elements_def js_fill_undefined_def map_replicate_const)

lemma props_ops:
  "props (js_resized n a) = props a"
  "props (js_set i v a) = (if i < 0 then AList.update i v (props a) else props a)"
  "props (js_delete i a) = (if i < 0 then AList.delete i (props a) else props a)"
  "props (js_fill_undefined a) = props a"
  by (simp_all add: js_resized_def js_set_def js_delete_def js_fill_undefined_def)

lemma same_cells_ops:
  assumes "same_cells a b"
  shows "same_cells (js_resized n a) (js_resized n b)"
    and "same_cells (js_set i v a) (js_set i v b)"
    and "same_cells (js_delete i a) (js_delete i b)"
    and "same_cells (js_fill_undefined a) (js_fill_undefined b)"
proof -
  from assms have e: "js_elements a = js_elements b" "props a = props b"
    by (simp_all add: same_cells_def)
  show "same_cells (js_resized n a) (js_resized n b)"
    by (simp only: same_cells_def js_elements_set_length props_ops e)
  show "same_cells (js_set i v a) (js_set i v b)"
    by (simp only: same_cells_def js_elements_js_set props_ops e)
  show "same_cells (js_delete i a) (js_delete i b)"
    by (simp only: same_cells_def js_elements_js_delete props_ops e)
  show "same_cells (js_fill_undefined a) (js_fill_undefined b)"
    by (simp only: same_cells_def js_elements_fill props_ops e)
qed

lemma find_from_values:
  "map cell_value cs = map cell_value ds \<Longrightarrow> find_from p cs k = find_from p ds k"
proof (induction cs arbitrary: ds k)
  case Nil
  then show ?case by simp
next
  case (Cons c cs)
  then obtain d ds' where "ds = d # ds'" "cell_value c = cell_value d"
    "map cell_value cs = map cell_value ds'" by (auto simp: Cons_eq_map_conv)
  with Cons.IH [of ds' "Suc k"] show ?case by simp
qed

lemma forEach_lru_values:
  "map cell_value cs = map cell_value ds \<Longrightarrow>
     forEach lru_callback cs k st = forEach lru_callback ds k st"
proof (induction cs arbitrary: ds k st)
  case Nil
  then show ?case by simp
next
  case (Cons c cs)
  then obtain d ds' where ds: "ds = d # ds'" "cell_value c = cell_value d"
    "map cell_value cs = map cell_value ds'" by (auto simp: Cons_eq_map_conv)
  have "forEach lru_callback (c # cs) k st = forEach lru_callback cs (Suc k) (lru_callback (cell_value c) k st)"
    by (cases c) (simp_all add: lru_callback_None)
  moreover have "forEach lru_callback (d # ds') k st = forEach lru_callback ds' (Suc k) (lru_callback (cell_value d) k st)"
    by (cases d) (simp_all add: lru_callback_None)
  ultimately show ?case
    using ds Cons.IH [of ds' "Suc k" "lru_callback (cell_value d) k st"] by simp
qed

lemma same_cells_findIndex: "same_cells a b \<Longrightarrow> findIndex p a = findIndex p b"
  unfolding same_cells_def js_elements_def findIndex_def
  by (elim conjE) (rule find_from_values)

lemma same_cells_least_recent:
  "same_cells u w \<Longrightarrow>
     findLeastRecentSlotIndex \<lparr>slots = x, slotsUsage = Some u\<rparr> =
     findLeastRecentSlotIndex \<lparr>slots = y, slotsUsage = Some w\<rparr>"
  using forEach_lru_values [of "items u" "items w" 0 "(Infinity, - 1)"]
  by (simp add: same_cells_def js_elements_def findLeastRecentSlotIndex_def)

lemma same_view_cases:
  assumes "same_view s t"
  obtains (none) x y where "s = \<lparr>slots = None, slotsUsage = x\<rparr>" "t = \<lparr>slots = None, slotsUsage = y\<rparr>"
      "rel_option same_cells x y"
    | (half) a b where "s = \<lparr>slots = Some a, slotsUsage = None\<rparr>" "t = \<lparr>slots = Some b, slotsUsage = None\<rparr>"
      "same_cells a b"
    | (both) a b u w where "s = pool a u" "t = pool b w" "same_cells a b" "same_cells u w"
proof (cases s; cases t)
  fix sa su ta tu
  assume st: "s = \<lparr>slots = sa, slotsUsage = su\<rparr>" "t = \<lparr>slots = ta, slotsUsage = tu\<rparr>"
  with assms have r: "rel_option same_cells sa ta" "rel_option same_cells su tu"
    by (simp_all add: same_view_def)
  show thesis
  proof (cases sa)
    case None
    with r(1) have "ta = None" by simp
    with None st r(2) show thesis by (intro none) simp_all
  next
    case (Some a)
    with r(1) obtain b where b: "ta = Some b" "same_cells a b" by (cases ta) auto
    show thesis
    proof (cases su)
      case None
      with r(2) have "tu = None" by simp
      with None Some b st show thesis by (intro half) simp_all
    next
      case u: (Some u)
      with r(2) obtain w where "tu = Some w" "same_cells u w" by (cases tu) auto
      with u Some b st show thesis by (intro both) simp_all
    qed
  qed
qed

lemma same_view_initializeSlots:
  assumes "same_view s t"
  shows "fst (initializeSlots n s) = fst (initializeSlots n t) \<and>
    same_view (snd (initializeSlots n s)) (snd (initializeSlots n t))"
proof -
  have e: "same_cells (empty_array :: 'a js_array) empty_array"
    by (simp add: same_cells_def)
  from assms have "same_cells (case slots s of None \<Rightarrow> empty_array | Some a \<Rightarrow> a)
      (case slots t of None \<Rightarrow> empty_array | Some a \<Rightarrow> a)"
    and "same_cells (case slotsUsage s of None \<Rightarrow> empty_array | Some a \<Rightarrow> a)
      (case slotsUsage t of None \<Rightarrow> empty_array | Some a \<Rightarrow> a)"
    using e by (auto simp: same_view_def split: option.splits)
  then show ?thesis
  proof (cases "n < 0 \<or> 4294967295 < n")
    case True
    assume "same_cells (case slots s of None \<Rightarrow> empty_array | Some a \<Rightarrow> a)
      (case slots t of None \<Rightarrow> empty_array | Some a \<Rightarrow> a)"
      "same_cells (case slotsUsage s of None \<Rightarrow> empty_array | Some a \<Rightarrow> a)
      (case slotsUsage t of None \<Rightarrow> empty_array | Some a \<Rightarrow> a)"
    then show ?thesis
      by (simp add: initializeSlots_refused [OF True] same_view_def)
  next
    case False
    then have n: "0 \<le> n" "n \<le> 4294967295" by simp_all
    assume "same_cells (case slots s of None \<Rightarrow> empty_array | Some a \<Rightarrow> a)
      (case slots t of None \<Rightarrow> empty_array | Some a \<Rightarrow> a)"
      "same_cells (case slotsUsage s of None \<Rightarrow> empty_array | Some a \<Rightarrow> a)
      (case slotsUsage t of None \<Rightarrow> empty_array | Some a \<Rightarrow> a)"
    then show ?thesis
      by (simp add: initializeSlots_accepted [OF n] same_view_def same_cells_ops)
  qed
qed

lemma same_view_releaseSlot:
  assumes "same_view s t"
  shows "fst (releaseSlot i s) = fst (releaseSlot i t) \<and>
    same_view (snd (releaseSlot i s)) (snd (releaseSlot i t))"
  using assms
  by (cases rule: same_view_cases)
    (simp_all add: releaseSlot_def same_view_def same_cells_ops)

lemma same_view_releaseSlots:
  assumes "same_view s t"
  shows "fst (releaseSlots s) = fst (releaseSlots t) \<and>
    same_view (snd (releaseSlots s)) (snd (releaseSlots t))"
  using assms
  by (cases rule: same_view_cases)
    (simp_all add: releaseSlots_def same_view_def same_cells_ops)

lemma same_view_updateSlotsAvailability:
  assumes "same_view s t"
  shows "updateSlotsAvailability s = updateSlotsAvailability t"
proof -
  have "count_used (object_values a) = count_used (object_values b) \<and> js_length a = js_length b"
    if "same_cells a b" for a b :: "string js_array"
    using that updateSlotsAvailability_pool [of a empty_array]
      updateSlotsAvailability_pool [of b empty_array] same_cells_length [of a b]
    by (simp add: same_cells_def updateSlotsAvailability_def js_length_def)
  with assms show ?thesis
    by (cases rule: same_view_cases) (simp_all add: updateSlotsAvailability_def)
qed

lemma same_view_acquireSlot:
  assumes "same_view s t"
  shows "fst (acquireSlot key now s) = fst (acquireSlot key now t) \<and>
    same_view (snd (acquireSlot key now s)) (snd (acquireSlot key now t))"
  using assms
proof (cases rule: same_view_cases)
  case (none x y)
  then show ?thesis by (simp add: acquireSlot_def same_view_def)
next
  case (half a b)
  have f: "findIndex p a = findIndex p b" for p
    using half(3) by (rule same_cells_findIndex)
  show ?thesis
    unfolding half(1,2)
    by (simp add: acquireSlot_def allocateSlot_def findLeastRecentSlotIndex_def Let_def f
        same_view_def same_cells_ops half(3))
next
  case (both a b u w)
  have f: "findIndex p a = findIndex p b" for p
    using both(3) by (rule same_cells_findIndex)
  obtain r where r: "findLeastRecentSlotIndex (pool b w) = Inr r"
    using findLeastRecentSlotIndex_pool [of b w] by blast
  with same_cells_least_recent [OF both(4), of "Some a" "Some b"]
  have r': "findLeastRecentSlotIndex (pool a u) = Inr r" by simp
  show ?thesis
    unfolding both(1,2)
    by (simp add: acquireSlot_def allocateSlot_pool Let_def f r r'
        same_view_def same_cells_ops both(3,4))
qed

section \<open>Some reachable states\<close>

lemmas acquire_eval = acquireSlot_def findIndex_def allocateSlot_def js_set_def
  findLeastRecentSlotIndex_def lru_callback_def Let_def

lemmas pool_eval = initializeSlots_def fresh_def empty_array_def js_set_length_def js_resized_def
  Let_def
  releaseSlot_def releaseSlots_def js_delete_def js_fill_undefined_def

lemma reachable_two_full:
  "reachable (pool \<lparr>items = [Val ''a'', Val ''b''], props = []\<rparr> \<lparr>items = [Val 5, Val 3], props = []\<rparr>)"
proof -
  have "reachable (snd (acquireSlot ''b'' 3 (snd (acquireSlot ''a'' 5 (snd (initializeSlots 2 fresh))))))"
    by (intro reachable.intros)
  then show ?thesis by (simp add: pool_eval acquire_eval numeral_2_eq_2)
qed

lemma reachable_one_free:
  "reachable (pool \<lparr>items = [Val ''a'', Hole], props = []\<rparr> \<lparr>items = [Val 5, Hole], props = []\<rparr>)"
proof -
  have "reachable (snd (acquireSlot ''a'' 5 (snd (initializeSlots 2 fresh))))"
    by (intro reachable.intros)
  then show ?thesis by (simp add: pool_eval acquire_eval numeral_2_eq_2)
qed

lemma reachable_cleared:
  "reachable (pool \<lparr>items = [Undefined, Undefined], props = []\<rparr> \<lparr>items = [Undefined, Undefined], props = []\<rparr>)"
proof -
  have "reachable (snd (releaseSlots (snd (acquireSlot ''a'' 5 (snd (initializeSlots 2 fresh))))))"
    by (intro reachable.intros)
  then show ?thesis by (simp add: pool_eval acquire_eval numeral_2_eq_2)
qed

lemma reachable_two_tie:
  "reachable (pool \<lparr>items = [Val ''a'', Val ''b''], props = []\<rparr> \<lparr>items = [Val 4, Val 4], props = []\<rparr>)"
proof -
  have "reachable (snd (acquireSlot ''b'' 4 (snd (acquireSlot ''a'' 4 (snd (initializeSlots 2 fresh))))))"
    by (intro reachable.intros)
  then show ?thesis by (simp add: pool_eval acquire_eval numeral_2_eq_2)
qed

lemma initializeSlots_fresh:
  "0 \<le> n \<Longrightarrow> n \<le> 4294967295 \<Longrightarrow>
     initializeSlots n fresh =
       (Inr (), pool \<lparr>items = replicate (nat n) Hole, props = []\<rparr>
                     \<lparr>items = replicate (nat n) Hole, props = []\<rparr>)"
  by (simp add: pool_eval)

lemma releaseSlots_pool:
  "releaseSlots (pool a u) = (Inr (), pool (js_fill_undefined a) (js_fill_undefined u))"
  by (simp add: releaseSlots_def)

section \<open>The claims\<close>

text \<open>
  Claim C1. \<^verbatim>\<open>acquireSlot(key)\<close> on a pool returns an index \<open>i\<close> and stores the key and
  the time at \<open>i\<close>, and \<open>i\<close> is chosen in strict priority order: if some index holds
  \<open>key\<close>, \<open>i\<close> is the lowest index that holds it; otherwise, if some index is empty,
  \<open>i\<close> is the lowest empty index; only when neither applies is \<open>i\<close> the result of
  \<open>findLeastRecentSlotIndex\<close>. In particular, on a pool of three slots that are all
  empty (holes or \<^verbatim>\<open>undefined\<close>), acquiring \<open>a\<close>, then \<open>b\<close>, then \<open>c\<close> returns
  \<open>0\<close>, \<open>1\<close> and \<open>2\<close>, at any times.
\<close>

theorem acquireSlot_priority:
  "\<exists>i. acquireSlot key now (pool a u) = (Inr i, pool (js_set i key a) (js_set i now u)) \<and>
     ((\<exists>j<js_length a. items a ! j = Val key) \<longrightarrow>
        0 \<le> i \<and> nat i < js_length a \<and> items a ! nat i = Val key \<and>
        (\<forall>j<nat i. items a ! j \<noteq> Val key)) \<and>
     ((\<forall>j<js_length a. items a ! j \<noteq> Val key) \<and> (\<exists>j<js_length a. cell_value (items a ! j) = None) \<longrightarrow>
        0 \<le> i \<and> nat i < js_length a \<and> cell_value (items a ! nat i) = None \<and>
        (\<forall>j<nat i. cell_value (items a ! j) \<noteq> None)) \<and>
     ((\<forall>j<js_length a. items a ! j \<noteq> Val key \<and> cell_value (items a ! j) \<noteq> None) \<longrightarrow>
        findLeastRecentSlotIndex (pool a u) = Inr i) \<and>
     (js_elements a = [None, None, None] \<longrightarrow>
        (\<exists>s1 s2 s3. acquireSlot ''a'' t1 (pool a u) = (Inr 0, s1) \<and>
           acquireSlot ''b'' t2 s1 = (Inr 1, s2) \<and> acquireSlot ''c'' t3 s2 = (Inr 2, s3)))"
proof -
  let ?P = "\<lambda>x. x = Some key"
  let ?Q = "\<lambda>x::string option. x = None"
  have example: "\<exists>s1 s2 s3. acquireSlot ''a'' t1 (pool a u) = (Inr 0, s1) \<and>
           acquireSlot ''b'' t2 s1 = (Inr 1, s2) \<and> acquireSlot ''c'' t3 s2 = (Inr 2, s3)"
    if e: "js_elements a = [None, None, None]"
  proof -
    from e obtain c0 c1 c2 where items: "items a = [c0, c1, c2]"
      and c: "cell_value c0 = None" "cell_value c1 = None" "cell_value c2 = None"
      by (auto simp: js_elements_def map_eq_Cons_conv)
    let ?a1 = "js_set 0 ''a'' a" and ?u1 = "js_set 0 t1 u"
    let ?a2 = "js_set 1 ''b'' ?a1" and ?u2 = "js_set 1 t2 ?u1"
    have i1: "items ?a1 = [Val ''a'', c1, c2]" by (simp add: js_set_items items)
    have i2: "items ?a2 = [Val ''a'', Val ''b'', c2]" by (simp add: js_set_items i1)
    have "acquireSlot ''a'' t1 (pool a u) = (Inr (int 0), pool (js_set (int 0) ''a'' a) (js_set (int 0) t1 u))"
      by (rule acquireSlot_free) (simp_all add: findIndex_def items c)
    moreover have "acquireSlot ''b'' t2 (pool ?a1 ?u1) = (Inr (int 1), pool (js_set (int 1) ''b'' ?a1) (js_set (int 1) t2 ?u1))"
      by (rule acquireSlot_free) (simp_all add: findIndex_def i1 c)
    moreover have "acquireSlot ''c'' t3 (pool ?a2 ?u2) = (Inr (int 2), pool (js_set (int 2) ''c'' ?a2) (js_set (int 2) t3 ?u2))"
      by (rule acquireSlot_free) (simp_all add: findIndex_def i2 c)
    ultimately show ?thesis by simp
  qed
  from acquireSlot_pool [of key now a u] obtain i where
    run: "acquireSlot key now (pool a u) = (Inr i, pool (js_set i key a) (js_set i now u))" and
    sel: "(findIndex ?P a \<noteq> - 1 \<and> i = findIndex ?P a) \<or>
      (findIndex ?P a = - 1 \<and> findIndex ?Q a \<noteq> - 1 \<and> i = findIndex ?Q a) \<or>
      (findIndex ?P a = - 1 \<and> findIndex ?Q a = - 1 \<and>
         findLeastRecentSlotIndex (pool a u) = Inr i)"
    by blast
  have reuse: "0 \<le> i \<and> nat i < js_length a \<and> items a ! nat i = Val key \<and>
        (\<forall>j<nat i. items a ! j \<noteq> Val key)"
    if "\<exists>j<js_length a. items a ! j = Val key"
  proof -
    from that have "findIndex ?P a \<noteq> - 1" by (simp add: key_absent)
    with sel have "i = findIndex ?P a" by blast
    with \<open>findIndex ?P a \<noteq> - 1\<close> obtain j where "i = int j" "j < length (items a)"
      "cell_value (items a ! j) = Some key" "\<forall>j'<j. cell_value (items a ! j') \<noteq> Some key"
      by (auto elim: findIndex_found)
    then show ?thesis by (simp add: js_length_def cell_value_Some)
  qed
  have free: "0 \<le> i \<and> nat i < js_length a \<and> cell_value (items a ! nat i) = None \<and>
        (\<forall>j<nat i. cell_value (items a ! j) \<noteq> None)"
    if "(\<forall>j<js_length a. items a ! j \<noteq> Val key) \<and> (\<exists>j<js_length a. cell_value (items a ! j) = None)"
  proof -
    from that have "findIndex ?P a = - 1" "findIndex ?Q a \<noteq> - 1"
      by (simp_all add: key_absent no_empty)
    with sel have "i = findIndex ?Q a" by blast
    with \<open>findIndex ?Q a \<noteq> - 1\<close> obtain j where "i = int j" "j < length (items a)"
      "cell_value (items a ! j) = None" "\<forall>j'<j. cell_value (items a ! j') \<noteq> None"
      by (auto elim: findIndex_found)
    then show ?thesis by (simp add: js_length_def)
  qed
  have evict: "findLeastRecentSlotIndex (pool a u) = Inr i"
    if "\<forall>j<js_length a. items a ! j \<noteq> Val key \<and> cell_value (items a ! j) \<noteq> None"
  proof -
    from that have "findIndex ?P a = - 1" "findIndex ?Q a = - 1"
      by (simp_all add: key_absent no_empty)
    with sel show ?thesis by blast
  qed
  from run reuse free evict example show ?thesis by blast
qed

theorem acquireSlot_priority_witness:
  "(\<exists>j<js_length \<lparr>items = [Val ''a'', Val ''b'', Hole], props = []\<rparr>.
      items \<lparr>items = [Val ''a'', Val ''b'', Hole], props = []\<rparr> ! j = Val ''b'') \<and>
   fst (acquireSlot ''b'' 9 (pool \<lparr>items = [Val ''a'', Val ''b'', Hole], props = []\<rparr>
      \<lparr>items = [Val 5, Val 3, Hole], props = []\<rparr>)) = Inr 1 \<and>
   fst (acquireSlot ''c'' 9 (pool \<lparr>items = [Val ''a'', Val ''b'', Hole], props = []\<rparr>
      \<lparr>items = [Val 5, Val 3, Hole], props = []\<rparr>)) = Inr 2 \<and>
   fst (acquireSlot ''c'' 9 (pool \<lparr>items = [Val ''a'', Val ''b''], props = []\<rparr>
      \<lparr>items = [Val 5, Val 3], props = []\<rparr>)) = Inr 1 \<and>
   findLeastRecentSlotIndex (pool \<lparr>items = [Val ''a'', Val ''b''], props = []\<rparr>
      \<lparr>items = [Val 5, Val 3], props = []\<rparr>) = Inr 1 \<and>
   (\<exists>s1 s2 s3. acquireSlot ''a'' 1 (pool \<lparr>items = [Hole, Undefined, Hole], props = []\<rparr>
      \<lparr>items = [Hole, Undefined, Hole], props = []\<rparr>) = (Inr 0, s1) \<and>
      acquireSlot ''b'' 2 s1 = (Inr 1, s2) \<and> acquireSlot ''c'' 3 s2 = (Inr 2, s3))"
proof -
  let ?a = "\<lparr>items = [Val ''a'', Val ''b'', Hole], props = []\<rparr>"
  let ?u = "\<lparr>items = [Val 5, Val 3, Hole], props = []\<rparr> :: int js_array"
  let ?a2 = "\<lparr>items = [Val ''a'', Val ''b''], props = []\<rparr>"
  let ?u2 = "\<lparr>items = [Val 5, Val 3], props = []\<rparr> :: int js_array"
  let ?e = "\<lparr>items = [Hole, Undefined, Hole], props = []\<rparr> :: string js_array"
  let ?f = "\<lparr>items = [Hole, Undefined, Hole], props = []\<rparr> :: int js_array"
  have present: "\<exists>j<js_length ?a. items ?a ! j = Val ''b''"
    by (intro exI [of _ 1]) (simp add: js_length_def)
  have absent: "\<forall>j<js_length ?a. items ?a ! j \<noteq> Val ''c''"
    by (simp add: js_length_def less_Suc_eq numeral_3_eq_3)
  have empty: "\<exists>j<js_length ?a. cell_value (items ?a ! j) = None"
    by (intro exI [of _ 2]) (simp add: js_length_def)
  have full: "\<forall>j<js_length ?a2. items ?a2 ! j \<noteq> Val ''c'' \<and> cell_value (items ?a2 ! j) \<noteq> None"
    by (simp add: js_length_def less_Suc_eq numeral_2_eq_2)
  have "fst (acquireSlot ''b'' 9 (pool ?a ?u)) = Inr 1"
    using acquireSlot_priority [of "''b''" 9 ?a ?u] present by (simp add: acquire_eval)
  moreover have "fst (acquireSlot ''c'' 9 (pool ?a ?u)) = Inr 2"
    using acquireSlot_priority [of "''c''" 9 ?a ?u] absent empty by (simp add: acquire_eval)
  moreover have "fst (acquireSlot ''c'' 9 (pool ?a2 ?u2)) = Inr 1 \<and>
      findLeastRecentSlotIndex (pool ?a2 ?u2) = Inr 1"
    using acquireSlot_priority [of "''c''" 9 ?a2 ?u2] full by (simp add: acquire_eval)
  moreover have "js_elements ?e = [None, None, None]"
    by (simp add: js_elements_def)
  with acquireSlot_priority [of "''a''" 0 ?e ?f 1 2 3]
  have "\<exists>s1 s2 s3. acquireSlot ''a'' 1 (pool ?e ?f) = (Inr 0, s1) \<and>
      acquireSlot ''b'' 2 s1 = (Inr 1, s2) \<and> acquireSlot ''c'' 3 s2 = (Inr 2, s3)"
    by blast
  ultimately show ?thesis using present by blast
qed

text \<open>
  Claim C2. In a reachable pool with at least one slot, when \<open>key\<close> stands at no index
  and no index is empty, \<^verbatim>\<open>acquireSlot(key)\<close> selects an index \<open>i\<close> whose time \<open>d\<close> is
  the smallest of all slots: every index holds a time \<open>e\<close> with \<open>d \<le> e\<close>, and every
  index below \<open>i\<close> holds a strictly later time, so among the indices that share the
  smallest time \<open>i\<close> is the lowest.
\<close>

theorem acquireSlot_evicts_least_recent:
  assumes "reachable (pool a u)" and "0 < js_length a"
    and "\<forall>j<js_length a. items a ! j \<noteq> Val key \<and> cell_value (items a ! j) \<noteq> None"
  shows "\<exists>i<js_length a. \<exists>d.
      acquireSlot key now (pool a u) =
        (Inr (int i), pool (js_set (int i) key a) (js_set (int i) now u)) \<and>
      items u ! i = Val d \<and>
      (\<forall>j<js_length a. \<exists>e. items u ! j = Val e \<and> d \<le> e \<and> (j < i \<longrightarrow> d < e))"
proof -
  from assms(1) have "aligned a u" by (simp add: reachable_pool)
  from evict_in_range [OF this assms(2)] assms(3) obtain i d where
    i: "i < js_length a" "findLeastRecentSlotIndex (pool a u) = Inr (int i)" "items u ! i = Val d"
      "\<forall>j<js_length a. \<exists>e. items u ! j = Val e \<and> d \<le> e \<and> (j < i \<longrightarrow> d < e)"
    by blast
  from assms(3) have "findIndex (\<lambda>x. x = Some key) a = - 1" "findIndex (\<lambda>x. x = None) a = - 1"
    by (simp_all add: key_absent no_empty)
  from this i(2) have "acquireSlot key now (pool a u) =
      (Inr (int i), pool (js_set (int i) key a) (js_set (int i) now u))"
    by (rule acquireSlot_evict)
  with i show ?thesis by blast
qed

theorem acquireSlot_evicts_least_recent_witness:
  "reachable (pool \<lparr>items = [Val ''a'', Val ''b''], props = []\<rparr> \<lparr>items = [Val 5, Val 3], props = []\<rparr>) \<and>
   acquireSlot ''c'' 9 (pool \<lparr>items = [Val ''a'', Val ''b''], props = []\<rparr> \<lparr>items = [Val 5, Val 3], props = []\<rparr>) =
     (Inr 1, pool \<lparr>items = [Val ''a'', Val ''c''], props = []\<rparr> \<lparr>items = [Val 5, Val 9], props = []\<rparr>) \<and>
   reachable (pool \<lparr>items = [Val ''a'', Val ''b''], props = []\<rparr> \<lparr>items = [Val 4, Val 4], props = []\<rparr>) \<and>
   acquireSlot ''c'' 9 (pool \<lparr>items = [Val ''a'', Val ''b''], props = []\<rparr> \<lparr>items = [Val 4, Val 4], props = []\<rparr>) =
     (Inr 0, pool \<lparr>items = [Val ''c'', Val ''b''], props = []\<rparr> \<lparr>items = [Val 9, Val 4], props = []\<rparr>)"
proof -
  let ?a = "\<lparr>items = [Val ''a'', Val ''b''], props = []\<rparr>"
  let ?u = "\<lparr>items = [Val 5, Val 3], props = []\<rparr> :: int js_array"
  let ?w = "\<lparr>items = [Val 4, Val 4], props = []\<rparr> :: int js_array"
  have pos: "0 < js_length ?a" and one: "1 < js_length ?a" by (simp_all add: js_length_def)
  have full: "\<forall>j<js_length ?a. items ?a ! j \<noteq> Val ''c'' \<and> cell_value (items ?a ! j) \<noteq> None"
    by (simp add: js_length_def less_Suc_eq numeral_2_eq_2)
  from acquireSlot_evicts_least_recent [OF reachable_two_full pos full, of 9]
  obtain i d where i: "i < js_length ?a"
      "acquireSlot ''c'' 9 (pool ?a ?u) = (Inr (int i), pool (js_set (int i) ''c'' ?a) (js_set (int i) 9 ?u))"
      "items ?u ! i = Val d" "\<forall>j<js_length ?a. \<exists>e. items ?u ! j = Val e \<and> d \<le> e \<and> (j < i \<longrightarrow> d < e)"
    by blast
  from i(4) one have "\<exists>e. items ?u ! 1 = Val e \<and> d \<le> e" by blast
  then have "d \<le> 3" by simp
  with i(1,3) have "i = 1" by (auto simp: js_length_def less_Suc_eq numeral_2_eq_2)
  with i(2) have first: "acquireSlot ''c'' 9 (pool ?a ?u) =
      (Inr 1, pool \<lparr>items = [Val ''a'', Val ''c''], props = []\<rparr> \<lparr>items = [Val 5, Val 9], props = []\<rparr>)"
    by (simp add: js_set_def)
  from acquireSlot_evicts_least_recent [OF reachable_two_tie pos full, of 9]
  obtain k e where k: "k < js_length ?a"
      "acquireSlot ''c'' 9 (pool ?a ?w) = (Inr (int k), pool (js_set (int k) ''c'' ?a) (js_set (int k) 9 ?w))"
      "items ?w ! k = Val e" "\<forall>j<js_length ?a. \<exists>e'. items ?w ! j = Val e' \<and> e \<le> e' \<and> (j < k \<longrightarrow> e < e')"
    by blast
  from k(1,3) have "e = 4" by (auto simp: js_length_def less_Suc_eq numeral_2_eq_2)
  moreover from k(4) pos have "\<exists>e'. items ?w ! 0 = Val e' \<and> (0 < k \<longrightarrow> e < e')" by blast
  ultimately have "k = 0" by simp
  with k(2) have "acquireSlot ''c'' 9 (pool ?a ?w) =
      (Inr 0, pool \<lparr>items = [Val ''c'', Val ''b''], props = []\<rparr> \<lparr>items = [Val 9, Val 4], props = []\<rparr>)"
    by (simp add: js_set_def)
  with first show ?thesis using reachable_two_full reachable_two_tie by simp
qed

text \<open>
  Claim C3 says that in every state reached from the empty pool no key stands at two
  indices and the used count is at most the capacity. The second half fails at capacity
  \<open>0\<close>: \<^verbatim>\<open>acquireSlot("a")\<close> finds no key, no empty slot and no least recent slot,
  and passes the sentinel \<open>-1\<close> of \<^verbatim>\<open>findLeastRecentSlotIndex\<close> to
  \<^verbatim>\<open>allocateSlot\<close> unchecked (the two \<^verbatim>\<open>findIndex\<close> results before it are
  checked against \<open>-1\<close>). The key is stored as the property \<open>-1\<close> of the array, which
  \<^verbatim>\<open>Object.values\<close> lists: \<^verbatim>\<open>updateSlotsAvailability\<close> then shows \<open>1\<close> used slot
  of \<open>0\<close>. The property outlives a resize: after \<^verbatim>\<open>initializeSlots(1)\<close> and
  \<^verbatim>\<open>acquireSlot("b")\<close> it shows \<open>2\<close> used slots of \<open>1\<close>.
\<close>

theorem acquireSlot_zero_capacity:
  "initializeSlots 0 fresh = (Inr (), pool \<lparr>items = [], props = []\<rparr> \<lparr>items = [], props = []\<rparr>) \<and>
   acquireSlot ''a'' 7 (pool \<lparr>items = [], props = []\<rparr> \<lparr>items = [], props = []\<rparr>) =
     (Inr (- 1), pool \<lparr>items = [], props = [(- 1, ''a'')]\<rparr> \<lparr>items = [], props = [(- 1, 7)]\<rparr>) \<and>
   updateSlotsAvailability (pool \<lparr>items = [], props = [(- 1, ''a'')]\<rparr> \<lparr>items = [], props = [(- 1, 7)]\<rparr>) =
     Inr (1, 0) \<and>
   initializeSlots 1 (pool \<lparr>items = [], props = [(- 1, ''a'')]\<rparr> \<lparr>items = [], props = [(- 1, 7)]\<rparr>) =
     (Inr (), pool \<lparr>items = [Hole], props = [(- 1, ''a'')]\<rparr> \<lparr>items = [Hole], props = [(- 1, 7)]\<rparr>) \<and>
   acquireSlot ''b'' 8 (pool \<lparr>items = [Hole], props = [(- 1, ''a'')]\<rparr> \<lparr>items = [Hole], props = [(- 1, 7)]\<rparr>) =
     (Inr 0, pool \<lparr>items = [Val ''b''], props = [(- 1, ''a'')]\<rparr> \<lparr>items = [Val 8], props = [(- 1, 7)]\<rparr>) \<and>
   updateSlotsAvailability (pool \<lparr>items = [Val ''b''], props = [(- 1, ''a'')]\<rparr> \<lparr>items = [Val 8], props = [(- 1, 7)]\<rparr>) =
     Inr (2, 1)"
  by (simp add: pool_eval acquire_eval updateSlotsAvailability_pool js_elements_def js_length_def)

text \<open>
  Claim C4 says that \<^verbatim>\<open>acquireSlot(key)\<close> fails with a capacity-exhausted error when
  the capacity is \<open>0\<close> and with an invalid-argument error when the key is empty, the
  state unchanged in both cases. The program checks neither: the empty key is given slot
  \<open>0\<close> of an empty pool of two slots, and at capacity \<open>0\<close> the call returns \<open>-1\<close>; both
  calls return normally and both change the state.
\<close>

theorem acquireSlot_no_argument_check:
  "acquireSlot [] 7 (pool \<lparr>items = [Hole, Hole], props = []\<rparr> \<lparr>items = [Hole, Hole], props = []\<rparr>) =
     (Inr 0, pool \<lparr>items = [Val [], Hole], props = []\<rparr> \<lparr>items = [Val 7, Hole], props = []\<rparr>) \<and>
   acquireSlot ''a'' 7 (pool \<lparr>items = [], props = []\<rparr> \<lparr>items = [], props = []\<rparr>) =
     (Inr (- 1), pool \<lparr>items = [], props = [(- 1, ''a'')]\<rparr> \<lparr>items = [], props = [(- 1, 7)]\<rparr>)"
  by (simp add: acquire_eval)

text \<open>
  Claim C4, as amended: \<^verbatim>\<open>acquireSlot\<close> accepts the empty key like any other key: in
  a reachable pool with at least one slot, \<^verbatim>\<open>acquireSlot("")\<close> returns an index below
  the capacity and leaves the empty key and the current time at that index. And
  whenever \<^verbatim>\<open>acquireSlot\<close> fails in a reachable state (it does before the arrays
  exist, with a \<^verbatim>\<open>TypeError\<close>), it leaves the state unchanged. What the call does at
  capacity \<open>0\<close> is not part of this statement.
\<close>

theorem acquireSlot_accepts_empty_key:
  "(reachable (pool a u) \<and> 0 < js_length a \<longrightarrow>
      (\<exists>i<js_length a.
         acquireSlot [] now (pool a u) =
           (Inr (int i), pool (js_set (int i) [] a) (js_set (int i) now u)) \<and>
         js_get (js_set (int i) [] a) (int i) = Some [] \<and>
         js_get (js_set (int i) now u) (int i) = Some now)) \<and>
   (reachable s \<and> fst (acquireSlot key now s) = Inl e \<longrightarrow> snd (acquireSlot key now s) = s)"
proof (intro conjI impI)
  assume h: "reachable (pool a u) \<and> 0 < js_length a"
  then have al: "aligned a u" by (simp add: reachable_pool)
  from acquireSlot_pool [of "[]" now a u] obtain i where
    run: "acquireSlot [] now (pool a u) = (Inr i, pool (js_set i [] a) (js_set i now u))" and
    sel: "(findIndex (\<lambda>x. x = Some []) a \<noteq> - 1 \<and> i = findIndex (\<lambda>x. x = Some []) a) \<or>
      (findIndex (\<lambda>x. x = Some []) a = - 1 \<and> findIndex (\<lambda>x. x = None) a \<noteq> - 1 \<and>
         i = findIndex (\<lambda>x. x = None) a) \<or>
      (findIndex (\<lambda>x. x = Some []) a = - 1 \<and> findIndex (\<lambda>x. x = None) a = - 1 \<and>
         findLeastRecentSlotIndex (pool a u) = Inr i)"
    by blast
  from sel have "\<exists>j<js_length a. i = int j"
  proof (elim disjE conjE)
    assume "findIndex (\<lambda>x. x = Some []) a \<noteq> - 1" "i = findIndex (\<lambda>x. x = Some []) a"
    then show ?thesis by (auto elim: findIndex_found simp: js_length_def)
  next
    assume "findIndex (\<lambda>x. x = None) a \<noteq> - 1" "i = findIndex (\<lambda>x. x = None) a"
    then show ?thesis by (auto elim: findIndex_found simp: js_length_def)
  next
    assume "findIndex (\<lambda>x. x = None) a = - 1" and r: "findLeastRecentSlotIndex (pool a u) = Inr i"
    then have "\<forall>j<js_length a. cell_value (items a ! j) \<noteq> None" by (simp add: no_empty)
    with al h have "\<exists>j<js_length a. \<exists>d. findLeastRecentSlotIndex (pool a u) = Inr (int j) \<and>
      items u ! j = Val d \<and>
      (\<forall>i<js_length a. \<exists>e. items u ! i = Val e \<and> d \<le> e \<and> (i < j \<longrightarrow> d < e))"
      by (intro evict_in_range) simp_all
    with r show ?thesis by auto
  qed
  with run show "\<exists>i<js_length a.
         acquireSlot [] now (pool a u) =
           (Inr (int i), pool (js_set (int i) [] a) (js_set (int i) now u)) \<and>
         js_get (js_set (int i) [] a) (int i) = Some [] \<and>
         js_get (js_set (int i) now u) (int i) = Some now"
    by (auto simp: js_get_js_set)
next
  assume h: "reachable s \<and> fst (acquireSlot key now s) = Inl e"
  then have "pool_inv s" by (simp add: reachable_inv)
  then show "snd (acquireSlot key now s) = s"
  proof (cases rule: pool_inv_cases)
    case 1
    then show ?thesis by (simp add: acquireSlot_fresh)
  next
    case (2 a u)
    with acquireSlot_pool [of key now a u] h show ?thesis by auto
  qed
qed

theorem acquireSlot_accepts_empty_key_witness:
  "reachable (pool \<lparr>items = [Val ''a'', Hole], props = []\<rparr> \<lparr>items = [Val 5, Hole], props = []\<rparr>) \<and>
   acquireSlot [] 9 (pool \<lparr>items = [Val ''a'', Hole], props = []\<rparr> \<lparr>items = [Val 5, Hole], props = []\<rparr>) =
     (Inr 1, pool \<lparr>items = [Val ''a'', Val []], props = []\<rparr> \<lparr>items = [Val 5, Val 9], props = []\<rparr>) \<and>
   reachable fresh \<and> fst (acquireSlot ''a'' 9 fresh) = Inl TypeError \<and>
   snd (acquireSlot ''a'' 9 fresh) = fresh"
proof -
  let ?a = "\<lparr>items = [Val ''a'', Hole], props = []\<rparr>"
  let ?u = "\<lparr>items = [Val 5, Hole], props = []\<rparr> :: int js_array"
  have f: "reachable fresh \<and> fst (acquireSlot ''a'' 9 fresh) = Inl TypeError"
    by (simp add: reachable_fresh acquireSlot_fresh)
  have p: "reachable (pool ?a ?u) \<and> 0 < js_length ?a"
    using reachable_one_free by (simp add: js_length_def)
  from acquireSlot_accepts_empty_key [of ?a ?u 9 fresh "''a''" TypeError] f p
  have "snd (acquireSlot ''a'' 9 fresh) = fresh"
    and "\<exists>i<js_length ?a. acquireSlot [] 9 (pool ?a ?u) =
           (Inr (int i), pool (js_set (int i) [] ?a) (js_set (int i) 9 ?u))"
    by blast+
  then show ?thesis using f p by (simp add: acquire_eval)
qed

text \<open>
  Claim C5 says that the used count is the number of non-empty occupant entries and that
  the available count is the capacity minus the used count. The second number that
  \<^verbatim>\<open>updateSlotsAvailability\<close> displays is \<^verbatim>\<open>slots.length\<close>: on a pool of two
  slots of which one is occupied it shows \<open>1\<close> used and \<open>2\<close> available, not \<open>2 - 1\<close>.
\<close>

theorem updateSlotsAvailability_available_is_capacity:
  "updateSlotsAvailability (pool \<lparr>items = [Val ''a'', Hole], props = []\<rparr> \<lparr>items = [Val 5, Hole], props = []\<rparr>) =
     Inr (1, 2) \<and>
   js_length \<lparr>items = [Val ''a'', Hole], props = []\<rparr> - 1 \<noteq> 2"
  by (simp add: updateSlotsAvailability_pool js_elements_def js_length_def)

text \<open>
  Claim C5, as amended: for every pool whose \<^verbatim>\<open>slots\<close> array has no property besides
  its indices, the used count that \<^verbatim>\<open>updateSlotsAvailability\<close> displays is the number
  of non-empty occupant entries, and the available count it displays is the capacity
  (the used slots are not subtracted). The function reads the settings and returns the
  two numbers; it has no state to change.
\<close>

theorem updateSlotsAvailability_counts:
  assumes "props a = []"
  shows "updateSlotsAvailability (pool a u) =
    Inr (length (filter (\<lambda>x. x \<noteq> None) (js_elements a)), js_length a)"
  using assms by (simp add: updateSlotsAvailability_pool)

theorem updateSlotsAvailability_counts_witness:
  "props \<lparr>items = [Val ''a'', Undefined, Hole], props = []\<rparr> = [] \<and>
   updateSlotsAvailability (pool \<lparr>items = [Val ''a'', Undefined, Hole], props = []\<rparr> \<lparr>items = [Val 5, Undefined, Hole], props = []\<rparr>) =
     Inr (1, 3)"
proof -
  have p: "props \<lparr>items = [Val ''a'', Undefined, Hole], props = []\<rparr> = []" by simp
  from updateSlotsAvailability_counts [OF p] show ?thesis
    by (simp add: js_elements_def js_length_def)
qed

text \<open>
  Claim C6 says that \<^verbatim>\<open>releaseSlot(index)\<close> fails with an out-of-range error for
  every index outside \<open>[0, capacity)\<close> and then changes nothing. The program has no such
  check: \<^verbatim>\<open>delete\<close> of an index that is not there is no error in JavaScript. On a
  pool of capacity \<open>2\<close>, \<^verbatim>\<open>releaseSlot(2)\<close> and \<^verbatim>\<open>releaseSlot(-1)\<close> both return
  normally. And where the array has a property \<open>-1\<close> (the state that C3 reaches, with
  one slot), \<^verbatim>\<open>releaseSlot(-1)\<close> is not without effect: it deletes that key and its
  time.
\<close>

theorem releaseSlot_out_of_range_no_error:
  "releaseSlot 2 (pool \<lparr>items = [Val ''a'', Val ''b''], props = []\<rparr> \<lparr>items = [Val 5, Val 3], props = []\<rparr>) =
     (Inr (), pool \<lparr>items = [Val ''a'', Val ''b''], props = []\<rparr> \<lparr>items = [Val 5, Val 3], props = []\<rparr>) \<and>
   releaseSlot (- 1) (pool \<lparr>items = [Val ''a'', Val ''b''], props = []\<rparr> \<lparr>items = [Val 5, Val 3], props = []\<rparr>) =
     (Inr (), pool \<lparr>items = [Val ''a'', Val ''b''], props = []\<rparr> \<lparr>items = [Val 5, Val 3], props = []\<rparr>) \<and>
   releaseSlot (- 1) (pool \<lparr>items = [Val ''b''], props = [(- 1, ''a'')]\<rparr> \<lparr>items = [Val 8], props = [(- 1, 7)]\<rparr>) =
     (Inr (), pool \<lparr>items = [Val ''b''], props = []\<rparr> \<lparr>items = [Val 8], props = []\<rparr>)"
  by (simp add: pool_eval)

text \<open>
  Claim C6, as amended: in every reachable pool, \<^verbatim>\<open>releaseSlot(index)\<close> raises no
  error and leaves the whole state as it was (no occupant, no time and not the capacity
  changes) for every index from the capacity on, and for every negative index when the
  arrays have no property besides their indices. (A property \<open>-1\<close>, which only the
  call of C3 at capacity \<open>0\<close> creates, is deleted by \<^verbatim>\<open>releaseSlot(-1)\<close>; such
  states are not part of this statement.)
\<close>

theorem releaseSlot_out_of_range:
  assumes "reachable (pool a u)"
  shows "(int (js_length a) \<le> index \<longrightarrow> releaseSlot index (pool a u) = (Inr (), pool a u)) \<and>
    (index < 0 \<and> props a = [] \<and> props u = [] \<longrightarrow>
       releaseSlot index (pool a u) = (Inr (), pool a u))"
proof (intro conjI impI)
  from assms have al: "aligned a u" by (simp add: reachable_pool)
  assume "int (js_length a) \<le> index"
  with al have "\<not> index < 0" "\<not> nat index < length (items a)" "\<not> nat index < length (items u)"
    by (auto simp: aligned_def js_length_def)
  then have "js_delete index a = a" "js_delete index u = u"
    by (simp_all add: js_delete_def)
  then show "releaseSlot index (pool a u) = (Inr (), pool a u)"
    by (simp add: releaseSlot_pool)
next
  assume "index < 0 \<and> props a = [] \<and> props u = []"
  then have "js_delete index a = a" "js_delete index u = u"
    by (simp_all add: js_delete_def)
  then show "releaseSlot index (pool a u) = (Inr (), pool a u)"
    by (simp add: releaseSlot_pool)
qed

theorem releaseSlot_out_of_range_witness:
  "reachable (pool \<lparr>items = [Val ''a'', Val ''b''], props = []\<rparr> \<lparr>items = [Val 5, Val 3], props = []\<rparr>) \<and>
   int (js_length \<lparr>items = [Val ''a'', Val ''b''], props = []\<rparr>) \<le> 2 \<and>
   releaseSlot 2 (pool \<lparr>items = [Val ''a'', Val ''b''], props = []\<rparr> \<lparr>items = [Val 5, Val 3], props = []\<rparr>) =
     (Inr (), pool \<lparr>items = [Val ''a'', Val ''b''], props = []\<rparr> \<lparr>items = [Val 5, Val 3], props = []\<rparr>) \<and>
   releaseSlot (- 1) (pool \<lparr>items = [Val ''a'', Val ''b''], props = []\<rparr> \<lparr>items = [Val 5, Val 3], props = []\<rparr>) =
     (Inr (), pool \<lparr>items = [Val ''a'', Val ''b''], props = []\<rparr> \<lparr>items = [Val 5, Val 3], props = []\<rparr>)"
proof -
  let ?a = "\<lparr>items = [Val ''a'', Val ''b''], props = []\<rparr>"
  let ?u = "\<lparr>items = [Val 5, Val 3], props = []\<rparr> :: int js_array"
  have above: "int (js_length ?a) \<le> 2" by (simp add: js_length_def)
  have below: "(- 1::int) < 0 \<and> props ?a = [] \<and> props ?u = []" by simp
  from releaseSlot_out_of_range [OF reachable_two_full, of 2] above
  have "releaseSlot 2 (pool ?a ?u) = (Inr (), pool ?a ?u)" by blast
  moreover from releaseSlot_out_of_range [OF reachable_two_full, of "- 1"] below
  have "releaseSlot (- 1) (pool ?a ?u) = (Inr (), pool ?a ?u)" by blast
  ultimately show ?thesis using reachable_two_full above by simp
qed

text \<open>
  Claim C7 says that \<^verbatim>\<open>initializeSlots(n)\<close> sets the capacity to \<open>n\<close> for every
  non-negative \<open>n\<close>. An array length is below \<open>2^32\<close>: for \<open>n = 4294967296\<close> the
  assignment \<^verbatim>\<open>slots.length = totalSlots\<close> throws a \<^verbatim>\<open>RangeError\<close>, and the call
  leaves a pool of two slots with the capacity \<open>2\<close> that it had (on the fresh settings
  it leaves two empty arrays).
\<close>

theorem initializeSlots_length_bound:
  "initializeSlots 4294967296
     (pool \<lparr>items = [Val ''a'', Val ''b''], props = []\<rparr> \<lparr>items = [Val 10, Val 20], props = []\<rparr>) =
     (Inl RangeError,
      pool \<lparr>items = [Val ''a'', Val ''b''], props = []\<rparr> \<lparr>items = [Val 10, Val 20], props = []\<rparr>) \<and>
   initializeSlots 4294967296 fresh =
     (Inl RangeError, pool \<lparr>items = [], props = []\<rparr> \<lparr>items = [], props = []\<rparr>)"
  by (simp add: initializeSlots_refused fresh_def empty_array_def)

text \<open>
  Claim C7, as amended: for every integer \<open>n\<close> with \<open>0 \<le> n < 2^32\<close>,
  \<^verbatim>\<open>initializeSlots(n)\<close> on a pool returns normally and leaves both arrays with length
  \<open>n\<close>. Every index below the old and the new length keeps its cell in both arrays;
  nothing is read at an index from \<open>n\<close> on (the state there is discarded); every index
  from the old length up to \<open>n\<close> is new and is a hole in both arrays: no key and no
  time. (On the fresh settings, where no array exists yet, the call creates both arrays
  with \<open>n\<close> holes.) In particular a pool holding \<open>[x, y, z]\<close> resized to \<open>2\<close> holds
  \<open>[x, y]\<close>, and one holding \<open>[x, y]\<close> resized to \<open>4\<close> holds \<open>[x, y, empty, empty]\<close>.
\<close>

theorem initializeSlots_resize:
  assumes "0 \<le> n" and "n < 4294967296"
  shows "\<exists>a' u'. initializeSlots n (pool a u) = (Inr (), pool a' u') \<and>
     int (js_length a') = n \<and> int (js_length u') = n \<and>
     (\<forall>i. i < min (js_length a) (nat n) \<longrightarrow> items a' ! i = items a ! i) \<and>
     (\<forall>i. i < min (js_length u) (nat n) \<longrightarrow> items u' ! i = items u ! i) \<and>
     (\<forall>i. n \<le> i \<longrightarrow> js_get a' i = None \<and> js_get u' i = None) \<and>
     (\<forall>i. js_length a \<le> i \<and> i < nat n \<longrightarrow> items a' ! i = Hole) \<and>
     (\<forall>i. js_length u \<le> i \<and> i < nat n \<longrightarrow> items u' ! i = Hole) \<and>
     (js_elements a = [Some x, Some y, Some z] \<and> n = 2 \<longrightarrow> js_elements a' = [Some x, Some y]) \<and>
     (js_elements a = [Some x, Some y] \<and> n = 4 \<longrightarrow> js_elements a' = [Some x, Some y, None, None]) \<and>
     initializeSlots n fresh =
       (Inr (), pool \<lparr>items = replicate (nat n) Hole, props = []\<rparr>
                     \<lparr>items = replicate (nat n) Hole, props = []\<rparr>)"
proof (intro exI conjI)
  from assms have n: "0 \<le> n" "n \<le> 4294967295" by simp_all
  let ?m = "nat n"
  show "initializeSlots n fresh =
       (Inr (), pool \<lparr>items = replicate ?m Hole, props = []\<rparr> \<lparr>items = replicate ?m Hole, props = []\<rparr>)"
    using n by (rule initializeSlots_fresh)
  show "initializeSlots n (pool a u) = (Inr (), pool (js_resized ?m a) (js_resized ?m u))"
    using n by (rule initializeSlots_pool)
  show "int (js_length (js_resized ?m a)) = n" "int (js_length (js_resized ?m u)) = n"
    using n by (simp_all add: js_length_def js_resized_items)
  show "\<forall>i. i < min (js_length a) ?m \<longrightarrow> items (js_resized ?m a) ! i = items a ! i"
    "\<forall>i. i < min (js_length u) ?m \<longrightarrow> items (js_resized ?m u) ! i = items u ! i"
    by (simp_all add: js_length_def js_resized_items)
  show "\<forall>i. n \<le> i \<longrightarrow> js_get (js_resized ?m a) i = None \<and> js_get (js_resized ?m u) i = None"
    using n by (simp add: js_get_beyond js_resized_items)
  show "\<forall>i. js_length a \<le> i \<and> i < ?m \<longrightarrow> items (js_resized ?m a) ! i = Hole"
    "\<forall>i. js_length u \<le> i \<and> i < ?m \<longrightarrow> items (js_resized ?m u) ! i = Hole"
    by (simp_all add: js_length_def js_resized_items)
  show "js_elements a = [Some x, Some y, Some z] \<and> n = 2 \<longrightarrow>
      js_elements (js_resized ?m a) = [Some x, Some y]"
    by (auto simp: js_elements_def js_resized_def take_map [symmetric] numeral_2_eq_2)
  show "js_elements a = [Some x, Some y] \<and> n = 4 \<longrightarrow>
      js_elements (js_resized ?m a) = [Some x, Some y, None, None]"
  proof (intro impI, elim conjE)
    assume e: "js_elements a = [Some x, Some y]" and n4: "n = 4"
    from e have "length (js_elements a) = 2" by simp
    then have len: "length (items a) = 2" by (simp add: js_elements_def)
    have "js_elements (js_resized ?m a) = js_elements a @ [None, None]"
      using len n4 by (simp add: js_elements_def js_resized_def numeral_eq_Suc)
    with e show "js_elements (js_resized ?m a) = [Some x, Some y, None, None]" by simp
  qed
qed

theorem initializeSlots_resize_witness:
  "(\<exists>a' u'. initializeSlots 2
        (pool \<lparr>items = [Val ''a'', Val ''b'', Val ''c''], props = []\<rparr>
              \<lparr>items = [Val 10, Val 20, Val 30], props = []\<rparr>) = (Inr (), pool a' u') \<and>
      js_length a' = 2 \<and> items a' ! 1 = Val ''b'' \<and> items u' ! 1 = Val 20 \<and>
      js_elements a' = [Some ''a'', Some ''b'']) \<and>
   (\<exists>a' u'. initializeSlots 4
        (pool \<lparr>items = [Val ''a'', Val ''b''], props = []\<rparr>
              \<lparr>items = [Val 10, Val 20], props = []\<rparr>) = (Inr (), pool a' u') \<and>
      js_length a' = 4 \<and> items a' ! 1 = Val ''b'' \<and> items a' ! 3 = Hole \<and> items u' ! 3 = Hole \<and>
      js_elements a' = [Some ''a'', Some ''b'', None, None])"
proof (rule conjI)
  let ?a = "\<lparr>items = [Val ''a'', Val ''b'', Val ''c''], props = []\<rparr>"
  let ?u = "\<lparr>items = [Val 10, Val 20, Val 30], props = []\<rparr> :: int js_array"
  have b: "(0::int) \<le> 2" "(2::int) < 4294967296" by simp_all
  from initializeSlots_resize [OF b, of ?a ?u "''a''" "''b''" "''c''"] obtain a' u' where
    h: "initializeSlots 2 (pool ?a ?u) = (Inr (), pool a' u')" "int (js_length a') = 2"
      "\<forall>i. i < min (js_length ?a) (nat 2) \<longrightarrow> items a' ! i = items ?a ! i"
      "\<forall>i. i < min (js_length ?u) (nat 2) \<longrightarrow> items u' ! i = items ?u ! i"
      "js_elements ?a = [Some ''a'', Some ''b'', Some ''c''] \<and> (2::int) = 2 \<longrightarrow>
         js_elements a' = [Some ''a'', Some ''b'']"
    by blast
  from h(2) have "js_length a' = 2" by simp
  moreover from h(3) have "items a' ! 1 = Val ''b''" by (simp add: js_length_def)
  moreover from h(4) have "items u' ! 1 = Val 20" by (simp add: js_length_def)
  moreover from h(5) have "js_elements a' = [Some ''a'', Some ''b'']" by (simp add: js_elements_def)
  ultimately show "\<exists>a' u'. initializeSlots 2 (pool ?a ?u) = (Inr (), pool a' u') \<and>
      js_length a' = 2 \<and> items a' ! 1 = Val ''b'' \<and> items u' ! 1 = Val 20 \<and>
      js_elements a' = [Some ''a'', Some ''b'']"
    using h(1) by blast
next
  let ?a = "\<lparr>items = [Val ''a'', Val ''b''], props = []\<rparr>"
  let ?u = "\<lparr>items = [Val 10, Val 20], props = []\<rparr> :: int js_array"
  have b: "(0::int) \<le> 4" "(4::int) < 4294967296" by simp_all
  from initializeSlots_resize [OF b, of ?a ?u "''a''" "''b''"] obtain a' u' where
    h: "initializeSlots 4 (pool ?a ?u) = (Inr (), pool a' u')" "int (js_length a') = 4"
      "\<forall>i. i < min (js_length ?a) (nat 4) \<longrightarrow> items a' ! i = items ?a ! i"
      "\<forall>i. js_length ?a \<le> i \<and> i < nat 4 \<longrightarrow> items a' ! i = Hole"
      "\<forall>i. js_length ?u \<le> i \<and> i < nat 4 \<longrightarrow> items u' ! i = Hole"
      "js_elements ?a = [Some ''a'', Some ''b''] \<and> (4::int) = 4 \<longrightarrow>
         js_elements a' = [Some ''a'', Some ''b'', None, None]"
    by blast
  from h(2) have "js_length a' = 4" by simp
  moreover from h(3) have "items a' ! 1 = Val ''b''" by (simp add: js_length_def)
  moreover from h(4) have "items a' ! 3 = Hole" by (simp add: js_length_def)
  moreover from h(5) have "items u' ! 3 = Hole" by (simp add: js_length_def)
  moreover from h(6) have "js_elements a' = [Some ''a'', Some ''b'', None, None]"
    by (simp add: js_elements_def)
  ultimately show "\<exists>a' u'. initializeSlots 4 (pool ?a ?u) = (Inr (), pool a' u') \<and>
      js_length a' = 4 \<and> items a' ! 1 = Val ''b'' \<and> items a' ! 3 = Hole \<and> items u' ! 3 = Hole \<and>
      js_elements a' = [Some ''a'', Some ''b'', None, None]"
    using h(1) by blast
qed

text \<open>
  Claim C8. Every call of \<^verbatim>\<open>acquireSlot(key)\<close> that returns, the reuse of a slot the key
  already owns included, leaves the current time at the index it returns (and the key
  too); and a second call for the same key that follows it directly, at any time,
  returns the same index.
\<close>

theorem acquireSlot_stamps_and_repeats:
  assumes "acquireSlot key t1 s = (Inr i, s1)"
  shows "\<exists>a1 u1. s1 = pool a1 u1 \<and> js_get a1 i = Some key \<and> js_get u1 i = Some t1 \<and>
    fst (acquireSlot key t2 s1) = Inr i"
proof -
  let ?P = "\<lambda>x. x = Some key"
  let ?Q = "\<lambda>x::string option. x = None"
  from assms obtain a u where s: "s = pool a u"
    using acquireSlot_success by blast
  from acquireSlot_pool [of key t1 a u] assms s have
    s1: "s1 = pool (js_set i key a) (js_set i t1 u)" and
    sel: "(findIndex ?P a \<noteq> - 1 \<and> i = findIndex ?P a) \<or>
      (findIndex ?P a = - 1 \<and> findIndex ?Q a \<noteq> - 1 \<and> i = findIndex ?Q a) \<or>
      (findIndex ?P a = - 1 \<and> findIndex ?Q a = - 1 \<and>
         findLeastRecentSlotIndex (pool a u) = Inr i)"
    by auto
  let ?a1 = "js_set i key a" and ?u1 = "js_set i t1 u"
  have again: "fst (acquireSlot key t2 (pool ?a1 ?u1)) = Inr i"
  proof (cases "findIndex ?P a = - 1")
    case False
    with sel have i: "i = findIndex ?P a" by blast
    from False obtain j where j: "findIndex ?P a = int j" by (auto elim: findIndex_found)
    then have "?a1 = a" using i by (simp add: js_set_present)
    then have "findIndex ?P ?a1 = int j" using j by simp
    then show ?thesis using i j by (simp add: acquireSlot_reuse)
  next
    case absent: True
    then have none: "\<forall>j<length (items a). items a ! j \<noteq> Val key"
      by (simp add: key_absent js_length_def)
    show ?thesis
    proof (cases "0 \<le> i")
      case True
      then obtain n where n: "i = int n" by (auto dest: zero_le_imp_eq_int)
      with none have "findIndex ?P (js_set (int n) key a) = int n"
        by (simp add: findIndex_js_set_absent)
      then have "fst (acquireSlot key t2 (pool (js_set (int n) key a) (js_set (int n) t1 u))) = Inr (int n)"
        by (simp add: acquireSlot_reuse)
      with n show ?thesis by simp
    next
      case False
      with absent sel have full: "findIndex ?Q a = - 1"
        and lru: "findLeastRecentSlotIndex (pool a u) = Inr i"
        by (auto elim: findIndex_found)
      from False have same: "items ?a1 = items a" "items ?u1 = items u"
        by (simp_all add: items_js_set_neg)
      then have "findIndex ?P ?a1 = - 1" "findIndex ?Q ?a1 = - 1"
        "findLeastRecentSlotIndex (pool ?a1 ?u1) = Inr i"
        using absent full lru by (simp_all add: findIndex_def findLeastRecentSlotIndex_def)
      then show ?thesis by (simp add: acquireSlot_evict)
    qed
  qed
  show ?thesis
    using s1 again by (intro exI [of _ ?a1] exI [of _ ?u1]) (simp add: js_get_js_set)
qed

theorem acquireSlot_stamps_and_repeats_witness:
  "acquireSlot ''b'' 7 (pool \<lparr>items = [Val ''a'', Val ''b''], props = []\<rparr> \<lparr>items = [Val 5, Val 3], props = []\<rparr>) =
     (Inr 1, pool \<lparr>items = [Val ''a'', Val ''b''], props = []\<rparr> \<lparr>items = [Val 5, Val 7], props = []\<rparr>) \<and>
   js_get \<lparr>items = [Val 5, Val 7], props = []\<rparr> 1 = Some (7::int) \<and>
   fst (acquireSlot ''b'' 8 (pool \<lparr>items = [Val ''a'', Val ''b''], props = []\<rparr> \<lparr>items = [Val 5, Val 7], props = []\<rparr>)) = Inr 1"
proof -
  let ?a = "\<lparr>items = [Val ''a'', Val ''b''], props = []\<rparr>"
  let ?u = "\<lparr>items = [Val 5, Val 3], props = []\<rparr> :: int js_array"
  let ?u1 = "\<lparr>items = [Val 5, Val 7], props = []\<rparr> :: int js_array"
  have run: "acquireSlot ''b'' 7 (pool ?a ?u) = (Inr 1, pool ?a ?u1)"
    by (simp add: acquire_eval)
  from acquireSlot_stamps_and_repeats [OF run, of 8]
  have "js_get ?u1 1 = Some 7 \<and> fst (acquireSlot ''b'' 8 (pool ?a ?u1)) = Inr 1" by auto
  with run show ?thesis by simp
qed

text \<open>
  Claim C9. Releasing an empty slot changes nothing: in a reachable pool, for every index
  \<open>i\<close> below the capacity whose slot is empty, \<^verbatim>\<open>releaseSlot(i)\<close> returns normally,
  and afterwards both arrays have the lengths they had, every index reads as before in
  both (no key and no time at \<open>i\<close>, as before), and the other properties are as before.
  (The cell itself may turn from \<^verbatim>\<open>undefined\<close> into a hole; both read as
  \<^verbatim>\<open>undefined\<close>.) And in every state, for every index, releasing twice has the
  outcome and the final state of releasing once.
\<close>

theorem releaseSlot_idempotent:
  "(reachable (pool a u) \<and> i < js_length a \<and> cell_value (items a ! i) = None \<longrightarrow>
      (\<exists>a' u'. releaseSlot (int i) (pool a u) = (Inr (), pool a' u') \<and>
         js_length a' = js_length a \<and> js_length u' = js_length u \<and>
         js_elements a' = js_elements a \<and> js_elements u' = js_elements u \<and>
         props a' = props a \<and> props u' = props u)) \<and>
   releaseSlot index (snd (releaseSlot index s)) = releaseSlot index s"
proof (intro conjI impI)
  assume h: "reachable (pool a u) \<and> i < js_length a \<and> cell_value (items a ! i) = None"
  then have "aligned a u" by (simp add: reachable_pool)
  with h have i: "i < length (items a)" "cell_value (items a ! i) = None"
    "i < length (items u)" "cell_value (items u ! i) = None"
    by (auto simp: aligned_def js_length_def)
  show "\<exists>a' u'. releaseSlot (int i) (pool a u) = (Inr (), pool a' u') \<and>
         js_length a' = js_length a \<and> js_length u' = js_length u \<and>
         js_elements a' = js_elements a \<and> js_elements u' = js_elements u \<and>
         props a' = props a \<and> props u' = props u"
    using js_delete_empty [OF i(1,2)] js_delete_empty [OF i(3,4)]
    by (intro exI [of _ "js_delete (int i) a"] exI [of _ "js_delete (int i) u"])
      (simp add: releaseSlot_pool js_length_def)
next
  show "releaseSlot index (snd (releaseSlot index s)) = releaseSlot index s"
    by (rule releaseSlot_twice)
qed

theorem releaseSlot_idempotent_witness:
  "reachable (pool \<lparr>items = [Undefined, Undefined], props = []\<rparr> \<lparr>items = [Undefined, Undefined], props = []\<rparr>) \<and>
   releaseSlot 1 (pool \<lparr>items = [Undefined, Undefined], props = []\<rparr> \<lparr>items = [Undefined, Undefined], props = []\<rparr>) =
     (Inr (), pool \<lparr>items = [Undefined, Hole], props = []\<rparr> \<lparr>items = [Undefined, Hole], props = []\<rparr>) \<and>
   js_elements \<lparr>items = [Undefined, Hole], props = []\<rparr> =
     js_elements \<lparr>items = [Undefined, Undefined :: string cell], props = []\<rparr> \<and>
   releaseSlot 0 (snd (releaseSlot 0 (pool \<lparr>items = [Val ''a'', Hole], props = []\<rparr> \<lparr>items = [Val 5, Hole], props = []\<rparr>))) =
     (Inr (), pool \<lparr>items = [Hole, Hole], props = []\<rparr> \<lparr>items = [Hole, Hole], props = []\<rparr>)"
proof -
  let ?a = "\<lparr>items = [Undefined, Undefined], props = []\<rparr> :: string js_array"
  let ?u = "\<lparr>items = [Undefined, Undefined], props = []\<rparr> :: int js_array"
  let ?s = "pool \<lparr>items = [Val ''a'', Hole], props = []\<rparr> \<lparr>items = [Val 5, Hole], props = []\<rparr>"
  have "reachable (pool ?a ?u) \<and> 1 < js_length ?a \<and> cell_value (items ?a ! 1) = None"
    using reachable_cleared by (simp add: js_length_def)
  with releaseSlot_idempotent [of ?a ?u 1 0 ?s]
  have "(\<exists>a' u'. releaseSlot (int 1) (pool ?a ?u) = (Inr (), pool a' u') \<and>
         js_elements a' = js_elements ?a \<and> js_elements u' = js_elements ?u)"
    and "releaseSlot 0 (snd (releaseSlot 0 ?s)) = releaseSlot 0 ?s"
    by blast+
  then show ?thesis
    using reachable_cleared by (auto simp: pool_eval js_elements_def)
qed

text \<open>
  Claim C10. In a reachable pool with at least one slot, \<^verbatim>\<open>acquireSlot(key)\<close> returns,
  for every key and time, an index \<open>i\<close> with \<open>0 \<le> i < capacity\<close>. The sentinel \<open>-1\<close> of
  \<^verbatim>\<open>findLeastRecentSlotIndex\<close> is out of reach there: when no index is empty, every
  index holds a time, and the scan does not return \<open>-1\<close>.
\<close>

theorem acquireSlot_index_in_range:
  assumes "reachable (pool a u)" and "0 < js_length a"
  shows "(\<exists>i<js_length a. fst (acquireSlot key now (pool a u)) = Inr (int i)) \<and>
    ((\<forall>j<js_length a. cell_value (items a ! j) \<noteq> None) \<longrightarrow>
       (\<forall>j<js_length a. \<exists>d. items u ! j = Val d) \<and>
       findLeastRecentSlotIndex (pool a u) \<noteq> Inr (- 1))"
proof
  from assms(1) have al: "aligned a u" by (simp add: reachable_pool)
  show "(\<forall>j<js_length a. cell_value (items a ! j) \<noteq> None) \<longrightarrow>
       (\<forall>j<js_length a. \<exists>d. items u ! j = Val d) \<and>
       findLeastRecentSlotIndex (pool a u) \<noteq> Inr (- 1)"
  proof
    assume "\<forall>j<js_length a. cell_value (items a ! j) \<noteq> None"
    from evict_in_range [OF al assms(2) this]
    show "(\<forall>j<js_length a. \<exists>d. items u ! j = Val d) \<and>
       findLeastRecentSlotIndex (pool a u) \<noteq> Inr (- 1)" by auto
  qed
  from acquireSlot_pool [of key now a u] obtain i where
    run: "acquireSlot key now (pool a u) = (Inr i, pool (js_set i key a) (js_set i now u))" and
    sel: "(findIndex (\<lambda>x. x = Some key) a \<noteq> - 1 \<and> i = findIndex (\<lambda>x. x = Some key) a) \<or>
      (findIndex (\<lambda>x. x = Some key) a = - 1 \<and> findIndex (\<lambda>x. x = None) a \<noteq> - 1 \<and>
         i = findIndex (\<lambda>x. x = None) a) \<or>
      (findIndex (\<lambda>x. x = Some key) a = - 1 \<and> findIndex (\<lambda>x. x = None) a = - 1 \<and>
         findLeastRecentSlotIndex (pool a u) = Inr i)"
    by blast
  from sel have "\<exists>j<js_length a. i = int j"
  proof (elim disjE conjE)
    assume "findIndex (\<lambda>x. x = Some key) a \<noteq> - 1" "i = findIndex (\<lambda>x. x = Some key) a"
    then show ?thesis by (auto elim: findIndex_found simp: js_length_def)
  next
    assume "findIndex (\<lambda>x. x = None) a \<noteq> - 1" "i = findIndex (\<lambda>x. x = None) a"
    then show ?thesis by (auto elim: findIndex_found simp: js_length_def)
  next
    assume "findIndex (\<lambda>x. x = None) a = - 1" and r: "findLeastRecentSlotIndex (pool a u) = Inr i"
    then have "\<forall>j<js_length a. cell_value (items a ! j) \<noteq> None" by (simp add: no_empty)
    from evict_in_range [OF al assms(2) this] r show ?thesis by auto
  qed
  with run show "\<exists>i<js_length a. fst (acquireSlot key now (pool a u)) = Inr (int i)" by auto
qed

theorem acquireSlot_index_in_range_witness:
  "reachable (pool \<lparr>items = [Val ''a'', Val ''b''], props = []\<rparr> \<lparr>items = [Val 5, Val 3], props = []\<rparr>) \<and>
   fst (acquireSlot ''c'' 9 (pool \<lparr>items = [Val ''a'', Val ''b''], props = []\<rparr> \<lparr>items = [Val 5, Val 3], props = []\<rparr>)) = Inr 1 \<and>
   findLeastRecentSlotIndex (pool \<lparr>items = [Val ''a'', Val ''b''], props = []\<rparr> \<lparr>items = [Val 5, Val 3], props = []\<rparr>) \<noteq> Inr (- 1) \<and>
   reachable (pool \<lparr>items = [Val ''a'', Hole], props = []\<rparr> \<lparr>items = [Val 5, Hole], props = []\<rparr>) \<and>
   fst (acquireSlot ''c'' 9 (pool \<lparr>items = [Val ''a'', Hole], props = []\<rparr> \<lparr>items = [Val 5, Hole], props = []\<rparr>)) = Inr 1"
proof -
  let ?a = "\<lparr>items = [Val ''a'', Val ''b''], props = []\<rparr>"
  let ?u = "\<lparr>items = [Val 5, Val 3], props = []\<rparr> :: int js_array"
  have pos: "0 < js_length ?a" by (simp add: js_length_def)
  have full: "\<forall>j<js_length ?a. cell_value (items ?a ! j) \<noteq> None"
    by (simp add: js_length_def less_Suc_eq numeral_2_eq_2)
  from acquireSlot_index_in_range [OF reachable_two_full pos, of "''c''" 9] full
  have "findLeastRecentSlotIndex (pool ?a ?u) \<noteq> Inr (- 1)" by blast
  then show ?thesis
    using reachable_two_full reachable_one_free by (simp add: acquire_eval)
qed

text \<open>
  Beyond the claims: in every reachable pool the two arrays have the same length, no key
  stands at two indices, and the number of indices that hold a key is at most the
  capacity. (This is the part of C3 that holds in every reachable state.)
\<close>

theorem reachable_distinct_keys:
  assumes "reachable (pool a u)"
  shows "js_length u = js_length a \<and>
    (\<forall>i<js_length a. \<forall>j<js_length a. \<forall>k. items a ! i = Val k \<and> items a ! j = Val k \<longrightarrow> i = j) \<and>
    length (filter (\<lambda>x. x \<noteq> None) (js_elements a)) \<le> js_length a"
proof -
  from assms have "aligned a u" "distinct_keys a" by (simp_all add: reachable_pool)
  then show ?thesis
    by (simp add: aligned_def distinct_keys_def js_length_def js_elements_def
        order.trans [OF length_filter_le])
qed

theorem reachable_distinct_keys_witness:
  "reachable (pool \<lparr>items = [Val ''a'', Val ''b''], props = []\<rparr> \<lparr>items = [Val 5, Val 3], props = []\<rparr>) \<and>
   js_length \<lparr>items = [Val 5, Val (3::int)], props = []\<rparr> = js_length \<lparr>items = [Val ''a'', Val ''b''], props = []\<rparr> \<and>
   length (filter (\<lambda>x. x \<noteq> None) (js_elements \<lparr>items = [Val ''a'', Val ''b''], props = []\<rparr>)) \<le> 2"
  using reachable_distinct_keys [OF reachable_two_full] reachable_two_full
  by (simp add: js_length_def)

text \<open>
  Beyond the claims: no operation tells a hole from a cell that holds
  \<^verbatim>\<open>undefined\<close>. From two states that read alike, each of the four operations has
  the same outcome (the same error or the same returned value) and leaves states that
  read alike, and \<^verbatim>\<open>updateSlotsAvailability\<close> displays the same numbers.
\<close>

theorem operations_ignore_holes:
  assumes "same_view s t"
  shows "fst (initializeSlots n s) = fst (initializeSlots n t) \<and>
      same_view (snd (initializeSlots n s)) (snd (initializeSlots n t)) \<and>
    fst (acquireSlot key now s) = fst (acquireSlot key now t) \<and>
      same_view (snd (acquireSlot key now s)) (snd (acquireSlot key now t)) \<and>
    fst (releaseSlot i s) = fst (releaseSlot i t) \<and>
      same_view (snd (releaseSlot i s)) (snd (releaseSlot i t)) \<and>
    fst (releaseSlots s) = fst (releaseSlots t) \<and>
      same_view (snd (releaseSlots s)) (snd (releaseSlots t)) \<and>
    updateSlotsAvailability s = updateSlotsAvailability t"
  using same_view_initializeSlots [OF assms, of n] same_view_acquireSlot [OF assms, of key now]
    same_view_releaseSlot [OF assms, of i] same_view_releaseSlots [OF assms]
    same_view_updateSlotsAvailability [OF assms]
  by blast

theorem operations_ignore_holes_witness:
  "same_view (pool \<lparr>items = [Val ''a'', Undefined], props = []\<rparr> \<lparr>items = [Val 5, Undefined], props = []\<rparr>)
     (pool \<lparr>items = [Val ''a'', Hole], props = []\<rparr> \<lparr>items = [Val 5, Hole], props = []\<rparr>) \<and>
   fst (acquireSlot ''b'' 9 (pool \<lparr>items = [Val ''a'', Undefined], props = []\<rparr> \<lparr>items = [Val 5, Undefined], props = []\<rparr>)) =
     fst (acquireSlot ''b'' 9 (pool \<lparr>items = [Val ''a'', Hole], props = []\<rparr> \<lparr>items = [Val 5, Hole], props = []\<rparr>)) \<and>
   updateSlotsAvailability (pool \<lparr>items = [Val ''a'', Undefined], props = []\<rparr> \<lparr>items = [Val 5, Undefined], props = []\<rparr>) =
     updateSlotsAvailability (pool \<lparr>items = [Val ''a'', Hole], props = []\<rparr> \<lparr>items = [Val 5, Hole], props = []\<rparr>)"
proof -
  let ?s = "pool \<lparr>items = [Val ''a'', Undefined], props = []\<rparr> \<lparr>items = [Val 5, Undefined], props = []\<rparr>"
  let ?t = "pool \<lparr>items = [Val ''a'', Hole], props = []\<rparr> \<lparr>items = [Val 5, Hole], props = []\<rparr>"
  have v: "same_view ?s ?t"
    by (simp add: same_view_def same_cells_def js_elements_def)
  from operations_ignore_holes [OF v, of 0 "''b''" 9 0] v show ?thesis by blast
qed

text \<open>
  Beyond the claims: \<^verbatim>\<open>releaseSlots()\<close> on a pool returns normally, keeps both
  lengths, and leaves \<^verbatim>\<open>undefined\<close> at every index of both arrays; when the
  \<^verbatim>\<open>slots\<close> array has no property besides its indices, the used count is \<open>0\<close>
  afterwards and the capacity is what it was.
\<close>

theorem releaseSlots_clears:
  "\<exists>a' u'. releaseSlots (pool a u) = (Inr (), pool a' u') \<and>
     js_length a' = js_length a \<and> js_length u' = js_length u \<and>
     js_elements a' = replicate (js_length a) None \<and>
     js_elements u' = replicate (js_length u) None \<and>
     (props a = [] \<longrightarrow> updateSlotsAvailability (pool a' u') = Inr (0, js_length a))"
proof (intro exI conjI)
  show "releaseSlots (pool a u) = (Inr (), pool (js_fill_undefined a) (js_fill_undefined u))"
    by (rule releaseSlots_pool)
  show "js_length (js_fill_undefined a) = js_length a" "js_length (js_fill_undefined u) = js_length u"
    by (simp_all add: js_length_def js_fill_undefined_def)
  show "js_elements (js_fill_undefined a) = replicate (js_length a) None"
    "js_elements (js_fill_undefined u) = replicate (js_length u) None"
    by (simp_all add: js_elements_fill) (simp_all add: js_elements_def js_length_def)
  show "props a = [] \<longrightarrow>
      updateSlotsAvailability (pool (js_fill_undefined a) (js_fill_undefined u)) = Inr (0, js_length a)"
    by (simp add: updateSlotsAvailability_pool js_elements_fill props_ops js_length_def)
      (simp add: js_fill_undefined_def)
qed

theorem releaseSlots_clears_witness:
  "releaseSlots (pool \<lparr>items = [Val ''a'', Hole], props = []\<rparr> \<lparr>items = [Val 5, Hole], props = []\<rparr>) =
     (Inr (), pool \<lparr>items = [Undefined, Undefined], props = []\<rparr> \<lparr>items = [Undefined, Undefined], props = []\<rparr>) \<and>
   updateSlotsAvailability (pool \<lparr>items = [Undefined, Undefined], props = []\<rparr> \<lparr>items = [Undefined, Undefined], props = []\<rparr>) =
     Inr (0, 2)"
proof -
  let ?a = "\<lparr>items = [Val ''a'', Hole], props = []\<rparr>"
  let ?u = "\<lparr>items = [Val 5, Hole], props = []\<rparr> :: int js_array"
  from releaseSlots_clears [of ?a ?u] obtain a' u' where
    h: "releaseSlots (pool ?a ?u) = (Inr (), pool a' u')"
      "props ?a = [] \<longrightarrow> updateSlotsAvailability (pool a' u') = Inr (0, js_length ?a)"
    by blast
  have e: "releaseSlots (pool ?a ?u) =
      (Inr (), pool \<lparr>items = [Undefined, Undefined], props = []\<rparr> \<lparr>items = [Undefined, Undefined], props = []\<rparr>)"
    by (simp add: pool_eval)
  with h show ?thesis by (simp add: js_length_def)
qed

text \<open>
  Beyond the claims: eviction under pressure. From the fresh settings, with two slots,
  acquiring \<open>a\<close>, \<open>b\<close> and \<open>a\<close> again at the times \<open>1\<close>, \<open>2\<close>, \<open>3\<close> returns \<open>0\<close>,
  \<open>1\<close>, \<open>0\<close>; acquiring \<open>c\<close> at time \<open>4\<close> then evicts \<open>b\<close>, which was not
  refreshed: it returns \<open>1\<close> and the slots hold \<open>a\<close> and \<open>c\<close>.
\<close>

theorem eviction_under_pressure:
  "initializeSlots 2 fresh =
     (Inr (), pool \<lparr>items = [Hole, Hole], props = []\<rparr> \<lparr>items = [Hole, Hole], props = []\<rparr>) \<and>
   acquireSlot ''a'' 1 (pool \<lparr>items = [Hole, Hole], props = []\<rparr> \<lparr>items = [Hole, Hole], props = []\<rparr>) =
     (Inr 0, pool \<lparr>items = [Val ''a'', Hole], props = []\<rparr> \<lparr>items = [Val 1, Hole], props = []\<rparr>) \<and>
   acquireSlot ''b'' 2 (pool \<lparr>items = [Val ''a'', Hole], props = []\<rparr> \<lparr>items = [Val 1, Hole], props = []\<rparr>) =
     (Inr 1, pool \<lparr>items = [Val ''a'', Val ''b''], props = []\<rparr> \<lparr>items = [Val 1, Val 2], props = []\<rparr>) \<and>
   acquireSlot ''a'' 3 (pool \<lparr>items = [Val ''a'', Val ''b''], props = []\<rparr> \<lparr>items = [Val 1, Val 2], props = []\<rparr>) =
     (Inr 0, pool \<lparr>items = [Val ''a'', Val ''b''], props = []\<rparr> \<lparr>items = [Val 3, Val 2], props = []\<rparr>) \<and>
   acquireSlot ''c'' 4 (pool \<lparr>items = [Val ''a'', Val ''b''], props = []\<rparr> \<lparr>items = [Val 3, Val 2], props = []\<rparr>) =
     (Inr 1, pool \<lparr>items = [Val ''a'', Val ''c''], props = []\<rparr> \<lparr>items = [Val 3, Val 4], props = []\<rparr>)"
  by (simp add: initializeSlots_fresh numeral_2_eq_2 acquire_eval)

end
